theory Spec2Isabelle
  imports Main "HOL-Library.Word" "HOL-Library.Sublist"
begin

section \<open>Values shared by the download core\<close>

text \<open>
  A \<^verbatim>\<open>Blob\<close> or \<^verbatim>\<open>Uint8Array\<close> is its byte sequence; \<^verbatim>\<open>new Blob(parts)\<close> is the
  concatenation of the parts and \<^verbatim>\<open>blob.size\<close> is the length.
\<close>

type_synonym byte = "8 word"
type_synonym bytes = "byte list"

text \<open>
  A JavaScript number that the download code computes is an integer or \<^verbatim>\<open>NaN\<close>
  (the result of \<^verbatim>\<open>parseInt\<close> on a header without digits). Integers are exact here:
  byte counts stay far below \<open>2^53\<close>, where doubles start to round.
\<close>

datatype number = Num int | NaN

fun plus_number :: "number \<Rightarrow> nat \<Rightarrow> number" where
  "plus_number (Num i) n = Num (i + int n)"
| "plus_number NaN n = NaN"

text \<open>\<^verbatim>\<open>a !== b\<close> on numbers: \<^verbatim>\<open>NaN\<close> differs from everything, itself included.\<close>

fun strict_neq :: "number \<Rightarrow> number \<Rightarrow> bool" where
  "strict_neq (Num a) (Num b) = (a \<noteq> b)"
| "strict_neq _ _ = True"

text \<open>\<^verbatim>\<open>x || 0\<close> on a number: zero and \<^verbatim>\<open>NaN\<close> are falsy.\<close>

fun or_zero :: "number \<Rightarrow> number" where
  "or_zero (Num i) = Num i"
| "or_zero NaN = Num 0"

fun greater_zero :: "number \<Rightarrow> bool" where
  "greater_zero (Num i) = (0 < i)"
| "greater_zero NaN = False"

definition is_digit :: "char \<Rightarrow> bool" where
  "is_digit c = (c \<in> set ''0123456789'')"

definition digit_value :: "char \<Rightarrow> nat" where
  "digit_value c = of_char c - 48"

definition digits_value :: "string \<Rightarrow> nat" where
  "digits_value ds = foldl (\<lambda>acc c. 10 * acc + digit_value c) 0 ds"

definition is_space :: "char \<Rightarrow> bool" where
  "is_space c = (c \<in> set [CHR '' '', CHR 0x09, CHR 0x0A, CHR 0x0B, CHR 0x0C, CHR 0x0D])"

text \<open>
  \<^verbatim>\<open>parseInt(s, 10)\<close>: leading white space is skipped, one sign is accepted, the longest run
  of decimal digits is read, and the result is \<^verbatim>\<open>NaN\<close> when there is no digit.
\<close>

definition parseInt :: "string \<Rightarrow> number" where
  "parseInt s =
     (let t = dropWhile is_space s;
          neg = (case t of c # _ \<Rightarrow> c = CHR ''-'' | [] \<Rightarrow> False);
          u = (case t of c # r \<Rightarrow> if c = CHR ''-'' \<or> c = CHR ''+'' then r else t | [] \<Rightarrow> t);
          ds = takeWhile is_digit u
      in if ds = [] then NaN
         else if neg then Num (- int (digits_value ds)) else Num (int (digits_value ds)))"

text \<open>\<^verbatim>\<open>n.toString()\<close> of a number.\<close>

fun nat_digits :: "nat \<Rightarrow> string" where
  "nat_digits n =
     (if n < 10 then [''0123456789'' ! n]
      else nat_digits (n div 10) @ [''0123456789'' ! (n mod 10)])"

declare nat_digits.simps [simp del]

fun toString :: "number \<Rightarrow> string" where
  "toString (Num i) = (if i < 0 then CHR ''-'' # nat_digits (nat (- i)) else nat_digits (nat i))"
| "toString NaN = ''NaN''"

text \<open>A string header value used as a condition: \<^verbatim>\<open>null\<close> and the empty string are falsy.\<close>

fun truthy :: "string option \<Rightarrow> bool" where
  "truthy None = False"
| "truthy (Some s) = (s \<noteq> [])"

datatype error =
    AbortError
  | NetworkError
  | QuotaExceededError
  | FetchFailed nat
  | ETagMismatch
  | NoResponseBody
  | MissingChunk nat string
  | MetadataMissing string
  | IntegrityCheckFailed nat number

text \<open>A computation that either returns with a state or throws leaving a state behind.\<close>

datatype 's outcome = Ok 's | Threw error 's

section \<open>ChunkStore\<close>

text \<open>
  The two object stores of \<^verbatim>\<open>texpen-downloads-v2\<close>: \<^verbatim>\<open>metadata\<close> keyed by URL (the record's
  \<^verbatim>\<open>url\<close> field is the key) and \<^verbatim>\<open>chunks\<close> keyed by \<^verbatim>\<open>[url, index]\<close>. The wall-clock field
  \<^verbatim>\<open>lastModified\<close> is left out.
\<close>

record metadata =
  totalBytes :: number
  downloadedBytes :: nat
  chunkCount :: nat
  etag :: "string option"

record chunk_store =
  metadata_tbl :: "string \<rightharpoonup> metadata"
  chunks_tbl :: "string \<times> nat \<rightharpoonup> bytes"

text \<open>
  The browser decides when a write exceeds the quota. The decision is a parameter: it may
  depend on the stored state and on the write. A rejected write aborts the transaction,
  so neither table changes.
\<close>

type_synonym quota = "chunk_store \<Rightarrow> string \<Rightarrow> nat \<Rightarrow> bytes \<Rightarrow> bool"

definition appendChunk ::
  "quota \<Rightarrow> chunk_store \<Rightarrow> string \<Rightarrow> bytes \<Rightarrow> nat \<Rightarrow> number \<Rightarrow> string option
     \<Rightarrow> error + chunk_store" where
  "appendChunk full st u chunk index total_bytes tag =
     (if full st u index chunk then Inl QuotaExceededError
      else
        let chunks' = (chunks_tbl st)((u, index) \<mapsto> chunk);
            meta0 = (case metadata_tbl st u of
                       None \<Rightarrow> \<lparr>totalBytes = total_bytes, downloadedBytes = 0, chunkCount = 0, etag = tag\<rparr>
                     | Some m \<Rightarrow> m);
            meta1 = meta0\<lparr>chunkCount := max (chunkCount meta0) (index + 1)\<rparr>;
            meta2 = (if index = 0 then meta1\<lparr>downloadedBytes := length chunk\<rparr>
                     else meta1\<lparr>downloadedBytes := downloadedBytes meta1 + length chunk\<rparr>);
            meta3 = meta2\<lparr>totalBytes := total_bytes\<rparr>
        in Inr (st\<lparr>metadata_tbl := (metadata_tbl st)(u \<mapsto> meta3), chunks_tbl := chunks'\<rparr>))"

definition getMetadata :: "chunk_store \<Rightarrow> string \<Rightarrow> metadata option" where
  "getMetadata st u = metadata_tbl st u"

definition clear :: "chunk_store \<Rightarrow> string \<Rightarrow> chunk_store" where
  "clear st u =
     st\<lparr>metadata_tbl := (metadata_tbl st)(u := None),
        chunks_tbl := (\<lambda>(v, i). if v = u then None else chunks_tbl st (v, i))\<rparr>"

text \<open>
  \<^verbatim>\<open>getStream\<close> returns a pull-based stream; its state is the index of the next chunk.
\<close>

record chunk_stream =
  stream_url :: string
  expectedChunks :: nat
  stream_index :: nat

datatype pull_result = Enqueue bytes | Close | StreamError error

definition getStream :: "string \<Rightarrow> nat \<Rightarrow> chunk_stream" where
  "getStream u n = \<lparr>stream_url = u, expectedChunks = n, stream_index = 0\<rparr>"

definition pull :: "chunk_store \<Rightarrow> chunk_stream \<Rightarrow> pull_result \<times> chunk_stream" where
  "pull st s =
     (if stream_index s \<ge> expectedChunks s then (Close, s)
      else case chunks_tbl st (stream_url s, stream_index s) of
             None \<Rightarrow> (StreamError (MissingChunk (stream_index s) (stream_url s)), s)
           | Some chunk \<Rightarrow> (Enqueue chunk, s\<lparr>stream_index := stream_index s + 1\<rparr>))"

text \<open>
  A reader that pulls until the stream closes or fails: the chunks it received, in order,
  and the error that ended the stream, if any.
\<close>

function read_all :: "chunk_store \<Rightarrow> chunk_stream \<Rightarrow> bytes list \<times> error option" where
  "read_all st s =
     (case pull st s of
        (Close, _) \<Rightarrow> ([], None)
      | (StreamError e, _) \<Rightarrow> ([], Some e)
      | (Enqueue chunk, s') \<Rightarrow> (case read_all st s' of (cs, e) \<Rightarrow> (chunk # cs, e)))"
  by pat_completeness auto
termination
  by (relation "measure (\<lambda>(st, s). expectedChunks s - stream_index s)")
     (auto simp: pull_def split: if_splits option.splits)

declare read_all.simps [simp del]

section \<open>ContentCache\<close>

text \<open>A cached \<^verbatim>\<open>Response\<close>: the two headers the code sets and the body.\<close>

record cached_response =
  content_length :: "string option"
  content_type :: "string option"
  cached_body :: bytes

type_synonym content_cache = "string \<rightharpoonup> cached_response"

datatype integrity_reason = FileNotFoundInCache | SizeMismatch number nat

record integrity_result =
  ok :: bool
  reason :: "integrity_reason option"
  missing :: "bool option"

definition checkCacheIntegrity :: "content_cache \<Rightarrow> string \<Rightarrow> integrity_result" where
  "checkCacheIntegrity cache u =
     (case cache u of
        None \<Rightarrow> \<lparr>ok = False, reason = Some FileNotFoundInCache, missing = Some True\<rparr>
      | Some cachedResponse \<Rightarrow>
          let contentLength = content_length cachedResponse in
          if truthy contentLength
               \<and> strict_neq (Num (int (length (cached_body cachedResponse))))
                     (parseInt (the contentLength))
          then \<lparr>ok = False,
                reason = Some (SizeMismatch (parseInt (the contentLength))
                                 (length (cached_body cachedResponse))),
                missing = None\<rparr>
          else \<lparr>ok = True, reason = None, missing = None\<rparr>)"

section \<open>DownloadJob\<close>

text \<open>
  The network as the job sees it. A request carries the URL and, on resume, the header
  \<^verbatim>\<open>Range: bytes=<start>-\<close>. A response carries the status, the headers the job reads,
  and the body as the sequence of values its reader hands out; the reader then either
  reports \<^verbatim>\<open>done\<close> or rejects (an abort or a transport failure).
\<close>

record request =
  req_url :: string
  range :: "nat option"

record response =
  http_status :: nat
  resp_content_length :: "string option"
  resp_content_range :: "string option"
  resp_etag :: "string option"
  body :: "bytes list option"
  body_end :: "error option"

definition response_ok :: "response \<Rightarrow> bool" where
  "response_ok r = (200 \<le> http_status r \<and> http_status r \<le> 299)"

record env =
  fetch :: "request \<Rightarrow> error + response"
  storageFull :: quota

datatype DownloadStatus = Pending | Running | Paused | Completed | Error

text \<open>
  The three callbacks of a job are installed together by the scheduler; \<open>callbacks\<close> names
  the promise whose \<^verbatim>\<open>resolve\<close> and \<^verbatim>\<open>reject\<close> they close over. The quota handler is
  the answer it gives when called. The speed field of the progress is wall-clock
  arithmetic and is left out.
\<close>

record DownloadJob =
  job_id :: string
  status :: DownloadStatus
  progress_loaded :: nat
  progress_total :: number
  job_error :: "error option"
  memoryChunks :: "bytes list"
  isMemoryMode :: bool
  quotaHandler :: "bool option"
  bufferSize :: nat
  callbacks :: "nat option"

definition new_DownloadJob :: "string \<Rightarrow> DownloadJob" where
  "new_DownloadJob u =
     \<lparr>job_id = u, status = Pending, progress_loaded = 0, progress_total = Num 0,
      job_error = None, memoryChunks = [], isMemoryMode = False, quotaHandler = None,
      bufferSize = 5 * 1024 * 1024, callbacks = None\<rparr>"

text \<open>The variables of \<^verbatim>\<open>_execute\<close> that its closure \<^verbatim>\<open>flush\<close> and the read loop share.\<close>

record loop =
  l_store :: chunk_store
  l_job :: DownloadJob
  chunkIndex :: nat
  pendingChunks :: "bytes list"
  pendingSize :: nat

definition flush :: "quota \<Rightarrow> number \<Rightarrow> string option \<Rightarrow> loop \<Rightarrow> loop outcome" where
  "flush full totalSize tag l =
     (if pendingChunks l = [] then Ok l
      else
        let blob = concat (pendingChunks l) in
        if isMemoryMode (l_job l) then
          Ok (l\<lparr>l_job := (l_job l)\<lparr>memoryChunks := memoryChunks (l_job l) @ [blob]\<rparr>,
                pendingChunks := [], pendingSize := 0\<rparr>)
        else
          let l1 = l\<lparr>chunkIndex := chunkIndex l + 1\<rparr> in
          case appendChunk full (l_store l1) (job_id (l_job l1)) blob (chunkIndex l) totalSize tag of
            Inr st' \<Rightarrow> Ok (l1\<lparr>l_store := st', pendingChunks := [], pendingSize := 0\<rparr>)
          | Inl e \<Rightarrow>
              if e = QuotaExceededError \<and> quotaHandler (l_job l1) \<noteq> None then
                if quotaHandler (l_job l1) = Some True then
                  let l2 = l1\<lparr>l_job := (l_job l1)\<lparr>isMemoryMode := True\<rparr>\<rparr>;
                      existing = read_all (l_store l2)
                                   (getStream (job_id (l_job l2)) (chunkIndex l2));
                      l3 = l2\<lparr>l_job := (l_job l2)\<lparr>memoryChunks :=
                                   memoryChunks (l_job l2) @ fst existing\<rparr>\<rparr>
                  in case snd existing of
                       Some recErr \<Rightarrow> Threw e l3
                     | None \<Rightarrow>
                         Ok (l3\<lparr>l_store := clear (l_store l3) (job_id (l_job l3)),
                               l_job := (l_job l3)\<lparr>memoryChunks :=
                                   memoryChunks (l_job l3) @ [blob]\<rparr>,
                               chunkIndex := chunkIndex l3 + 1,
                               pendingChunks := [], pendingSize := 0\<rparr>)
                else Threw e l1
              else Threw e l1)"

text \<open>
  The read loop over the values of the body: each value is buffered and counted, and the
  buffer is flushed when it reaches \<open>bufferSize\<close> and once more when the reader is done.
\<close>

fun consume ::
  "quota \<Rightarrow> number \<Rightarrow> string option \<Rightarrow> bytes list \<Rightarrow> error option \<Rightarrow> loop \<Rightarrow> loop outcome" where
  "consume full totalSize tag [] ending l =
     (case ending of
        None \<Rightarrow> flush full totalSize tag l
      | Some e \<Rightarrow> Threw e l)"
| "consume full totalSize tag (v # vs) ending l =
     (let l1 = l\<lparr>l_job := (l_job l)\<lparr>progress_loaded := progress_loaded (l_job l) + length v\<rparr>,
                  pendingChunks := pendingChunks l @ [v],
                  pendingSize := pendingSize l + length v\<rparr>
      in if pendingSize l1 \<ge> bufferSize (l_job l1) then
           (case flush full totalSize tag l1 of
              Threw e l2 \<Rightarrow> Threw e l2
            | Ok l2 \<Rightarrow> consume full totalSize tag vs ending l2)
         else consume full totalSize tag vs ending l1)"

text \<open>
  \<^verbatim>\<open>contentRange.match(/\*\/(\d+)/)\<close>: the digits captured at the first place where
  \<^verbatim>\<open>*/\<close> is followed by a digit.
\<close>

fun match_total :: "string \<Rightarrow> string option" where
  "match_total [] = None"
| "match_total (c # cs) =
     (if c = CHR ''*'' \<and> (case cs of d # ds \<Rightarrow> d = CHR ''/'' \<and> takeWhile is_digit ds \<noteq> [] | [] \<Rightarrow> False)
      then Some (takeWhile is_digit (tl cs))
      else match_total cs)"

text \<open>
  The 416 branch: the size the server reports when the job takes the resource to be
  complete (\<^verbatim>\<open>startByte >= serverSize\<close>), nothing otherwise.
\<close>

definition done_416 :: "nat \<Rightarrow> response \<Rightarrow> nat option" where
  "done_416 startByte r =
     (if truthy (resp_content_range r) then
        (case match_total (the (resp_content_range r)) of
           Some ds \<Rightarrow> if startByte \<ge> digits_value ds then Some (digits_value ds) else None
         | None \<Rightarrow> None)
      else None)"

record exec =
  store :: chunk_store
  job :: DownloadJob
  requests :: "request list"

text \<open>One pass through the body of \<^verbatim>\<open>_execute\<close> ends by returning, by throwing, or by the
  call \<^verbatim>\<open>return this._execute()\<close>.\<close>

datatype pass = Return "exec outcome" | Again exec

definition etag_mismatch :: "metadata option \<Rightarrow> string option \<Rightarrow> bool" where
  "etag_mismatch meta tag =
     (case meta of
        None \<Rightarrow> False
      | Some m \<Rightarrow> truthy (etag m) \<and> truthy tag \<and> etag m \<noteq> tag)"

definition consume_response ::
  "env \<Rightarrow> metadata option \<Rightarrow> nat \<Rightarrow> nat \<Rightarrow> response \<Rightarrow> exec \<Rightarrow> exec outcome" where
  "consume_response e meta startByte chunkIndex0 r x =
     (let u = job_id (job x);
          contentLength = resp_content_length r;
          totalSize = (if truthy contentLength
                       then plus_number (parseInt (the contentLength)) startByte
                       else (case meta of Some m \<Rightarrow> or_zero (totalBytes m) | None \<Rightarrow> Num 0));
          tag = resp_etag r
      in if etag_mismatch meta tag then Threw ETagMismatch (x\<lparr>store := clear (store x) u\<rparr>)
         else
           let ignored = (startByte > 0 \<and> http_status r = 200);
               x1 = (if ignored then x\<lparr>store := clear (store x) u\<rparr> else x);
               startByte1 = (if ignored then 0 else startByte);
               chunkIndex1 = (if ignored then 0 else chunkIndex0);
               x2 = x1\<lparr>job := (job x1)\<lparr>progress_loaded := startByte1,
                                        progress_total := totalSize\<rparr>\<rparr>
           in case body r of
                None \<Rightarrow> Threw NoResponseBody x2
              | Some vs \<Rightarrow>
                  (case consume (storageFull e) totalSize tag vs (body_end r)
                          \<lparr>l_store = store x2, l_job = job x2, chunkIndex = chunkIndex1,
                           pendingChunks = [], pendingSize = 0\<rparr> of
                     Ok l \<Rightarrow> Ok (x2\<lparr>store := l_store l, job := l_job l\<rparr>)
                   | Threw err l \<Rightarrow> Threw err (x2\<lparr>store := l_store l, job := l_job l\<rparr>)))"

text \<open>
  The resumption check at the head of \<^verbatim>\<open>_execute\<close>: the metadata it read, the start byte,
  the index of the next chunk, and the state after the clearing of a record without
  bytes.
\<close>

definition resumption :: "exec \<Rightarrow> metadata option \<times> nat \<times> nat \<times> exec" where
  "resumption x =
     (let u = job_id (job x);
          meta = getMetadata (store x) u
      in case meta of
           None \<Rightarrow> (meta, 0, 0, x)
         | Some m \<Rightarrow>
             if downloadedBytes m > 0 then (meta, downloadedBytes m, chunkCount m, x)
             else (meta, 0, 0, x\<lparr>store := clear (store x) u\<rparr>))"

definition execute_pass :: "env \<Rightarrow> exec \<Rightarrow> pass" where
  "execute_pass e x =
     (case resumption x of
        (meta, startByte, chunkIndex0, x1) \<Rightarrow>
          let u = job_id (job x1);
              req = \<lparr>req_url = u, range = (if startByte > 0 then Some startByte else None)\<rparr>;
              x2 = x1\<lparr>requests := requests x1 @ [req]\<rparr>
          in case fetch e req of
               Inl err \<Rightarrow> Return (Threw err x2)
             | Inr r \<Rightarrow>
                 if \<not> response_ok r then
                   if http_status r = 416 then
                     (case done_416 startByte r of
                        Some serverSize \<Rightarrow>
                          Return (Ok (x2\<lparr>job := (job x2)\<lparr>progress_loaded := serverSize,
                                                          progress_total := Num (int serverSize)\<rparr>\<rparr>))
                      | None \<Rightarrow> Again (x2\<lparr>store := clear (store x2) u\<rparr>))
                   else Return (Threw (FetchFailed (http_status r)) x2)
                 else Return (consume_response e meta startByte chunkIndex0 r x2))"

text \<open>
  \<^verbatim>\<open>_execute\<close> calls itself after a 416 that does not mean completion. Nothing in the code
  bounds these calls, so a run that never returns has the value \<open>None\<close>.
\<close>

partial_function (option) execute :: "env \<Rightarrow> exec \<Rightarrow> exec outcome option" where
  "execute e x =
     (case execute_pass e x of
        Again x' \<Rightarrow> execute e x'
      | Return r \<Rightarrow> Some r)"

text \<open>
  \<^verbatim>\<open>start\<close>: what the job reports when it stops. Completion hands over the blob of the
  memory chunks in memory mode and nothing otherwise; an abort reports nothing.
\<close>

datatype report = OnComplete "bytes option" | OnError error | NoReport

definition start :: "env \<Rightarrow> exec \<Rightarrow> (report \<times> exec) option" where
  "start e x =
     (if status (job x) = Running \<or> status (job x) = Completed then Some (NoReport, x)
      else
        case execute e (x\<lparr>job := (job x)\<lparr>status := Running, job_error := None\<rparr>\<rparr>) of
          None \<Rightarrow> None
        | Some (Ok x') \<Rightarrow>
            Some (OnComplete (if isMemoryMode (job x')
                              then Some (concat (memoryChunks (job x'))) else None),
                  x'\<lparr>job := (job x')\<lparr>status := Completed\<rparr>\<rparr>)
        | Some (Threw err x') \<Rightarrow>
            if err = AbortError then Some (NoReport, x'\<lparr>job := (job x')\<lparr>status := Paused\<rparr>\<rparr>)
            else Some (OnError err,
                       x'\<lparr>job := (job x')\<lparr>status := Error, job_error := Some err\<rparr>\<rparr>))"

section \<open>DownloadManager\<close>

record system =
  sys_store :: chunk_store
  sys_cache :: content_cache

text \<open>
  \<^verbatim>\<open>cache.put\<close> reads the body of the response to its end; when the body is the chunk
  stream and the stream fails, the put rejects with the stream's error and stores nothing.
\<close>

definition finalizeCache :: "system \<Rightarrow> string \<Rightarrow> bytes option \<Rightarrow> system outcome" where
  "finalizeCache sys u memoryBlob =
     (let built =
        (case memoryBlob of
           Some blob \<Rightarrow>
             Inr \<lparr>content_length = Some (toString (Num (int (length blob)))),
                  content_type = Some ''application/octet-stream'',
                  cached_body = blob\<rparr>
         | None \<Rightarrow>
             (case getMetadata (sys_store sys) u of
                None \<Rightarrow> Inl (MetadataMissing u)
              | Some meta \<Rightarrow>
                  if strict_neq (Num (int (downloadedBytes meta))) (totalBytes meta)
                  then Inl (IntegrityCheckFailed (downloadedBytes meta) (totalBytes meta))
                  else
                    (case read_all (sys_store sys) (getStream u (chunkCount meta)) of
                       (cs, Some err) \<Rightarrow> Inl err
                     | (cs, None) \<Rightarrow>
                         Inr \<lparr>content_length = Some (toString (totalBytes meta)),
                              content_type = Some ''application/octet-stream'',
                              cached_body = concat cs\<rparr>)))
      in case built of
           Inl err \<Rightarrow> Threw err sys
         | Inr r \<Rightarrow> Ok \<lparr>sys_store = clear (sys_store sys) u, sys_cache = (sys_cache sys)(u \<mapsto> r)\<rparr>)"

text \<open>
  \<^verbatim>\<open>downloadFile\<close> for one URL with no other download in flight: the scheduler creates the
  job, gives it the quota handler, starts it at once and installs the callbacks that
  settle the promise \<^verbatim>\<open>downloadFile\<close> awaits. The result is how the caller's promise ends,
  the state of the two stores, and the requests that were sent.
\<close>

datatype settled = Resolved | Rejected error | NeverSettled

definition is_cached :: "content_cache \<Rightarrow> string \<Rightarrow> bool" where
  "is_cached cache u =
     (case cache u of
        None \<Rightarrow> False
      | Some cachedResponse \<Rightarrow>
          greater_zero (if truthy (content_length cachedResponse)
                        then parseInt (the (content_length cachedResponse)) else Num 0))"

definition downloadFile ::
  "env \<Rightarrow> bool option \<Rightarrow> system \<Rightarrow> string \<Rightarrow> (settled \<times> system \<times> request list) option" where
  "downloadFile e handler sys u =
     (if is_cached (sys_cache sys) u then Some (Resolved, sys, [])
      else
        case start e \<lparr>store = sys_store sys,
                      job = (new_DownloadJob u)\<lparr>quotaHandler := handler\<rparr>,
                      requests = []\<rparr> of
          None \<Rightarrow> None
        | Some (rep, x) \<Rightarrow>
            let sys1 = sys\<lparr>sys_store := store x\<rparr> in
            (case rep of
               OnComplete result \<Rightarrow>
                 (case finalizeCache sys1 u result of
                    Ok sys2 \<Rightarrow> Some (Resolved, sys2, requests x)
                  | Threw err sys2 \<Rightarrow> Some (Rejected err, sys2, requests x))
             | OnError err \<Rightarrow> Some (Rejected err, sys1, requests x)
             | NoReport \<Rightarrow> Some (NeverSettled, sys1, requests x)))"

section \<open>DownloadScheduler\<close>

text \<open>
  Job objects live in a heap and are named by their address; the map \<open>jobs\<close> and the
  queue hold addresses. A promise returned by \<^verbatim>\<open>download\<close> is named by its position in
  \<open>promises\<close>.
\<close>

datatype promise = Waiting | Fulfilled "bytes option" | Failed error

record scheduler =
  heap :: "DownloadJob list"
  jobs :: "string \<rightharpoonup> nat"
  queue :: "nat list"
  activeCount :: int
  promises :: "promise list"
  scheduler_quotaHandler :: "bool option"

definition MAX_CONCURRENT :: int where
  "MAX_CONCURRENT = 3"

definition new_scheduler :: scheduler where
  "new_scheduler =
     \<lparr>heap = [], jobs = Map.empty, queue = [], activeCount = 0, promises = [],
      scheduler_quotaHandler = None\<rparr>"

text \<open>The part of \<^verbatim>\<open>job.start()\<close> that runs before its first \<^verbatim>\<open>await\<close>.\<close>

definition start_job :: "DownloadJob \<Rightarrow> DownloadJob" where
  "start_job j =
     (if status j = Running \<or> status j = Completed then j
      else j\<lparr>status := Running, job_error := None\<rparr>)"

function processQueue :: "scheduler \<Rightarrow> scheduler" where
  "processQueue s =
     (if activeCount s \<ge> MAX_CONCURRENT then s
      else case queue s of
             [] \<Rightarrow> s
           | a # rest \<Rightarrow>
               processQueue (s\<lparr>queue := rest, activeCount := activeCount s + 1,
                                heap := (heap s)[a := start_job (heap s ! a)]\<rparr>))"
  by pat_completeness auto
termination
  by (relation "measure (\<lambda>s. length (queue s))") auto

declare processQueue.simps [simp del]

definition waitForJob :: "scheduler \<Rightarrow> nat \<Rightarrow> nat \<times> scheduler" where
  "waitForJob s a =
     (length (promises s),
      s\<lparr>promises := promises s @ [Waiting],
         heap := (heap s)[a := (heap s ! a)\<lparr>callbacks := Some (length (promises s))\<rparr>]\<rparr>)"

definition download :: "scheduler \<Rightarrow> string \<Rightarrow> nat \<times> scheduler" where
  "download s u =
     (case jobs s u of
        Some a \<Rightarrow> waitForJob s a
      | None \<Rightarrow>
          let a = length (heap s);
              j = (new_DownloadJob u)\<lparr>quotaHandler := scheduler_quotaHandler s\<rparr>;
              s1 = s\<lparr>heap := heap s @ [j], jobs := (jobs s)(u \<mapsto> a), queue := queue s @ [a]\<rparr>
          in waitForJob (processQueue s1) a)"

text \<open>
  The end of \<^verbatim>\<open>job.start()\<close> for a running job: the status changes and the installed
  callback runs, which forgets the job, gives back its slot, admits from the queue and
  settles the promise it closes over.
\<close>

definition job_completes :: "scheduler \<Rightarrow> nat \<Rightarrow> bytes option \<Rightarrow> scheduler" where
  "job_completes s a result =
     (let j = (heap s ! a)\<lparr>status := Completed\<rparr>;
          s1 = s\<lparr>heap := (heap s)[a := j]\<rparr>
      in case callbacks j of
           None \<Rightarrow> s1
         | Some p \<Rightarrow>
             let s2 = processQueue (s1\<lparr>jobs := (jobs s1)(job_id j := None),
                                        activeCount := activeCount s1 - 1\<rparr>)
             in s2\<lparr>promises := (promises s2)[p := Fulfilled result]\<rparr>)"

definition job_fails :: "scheduler \<Rightarrow> nat \<Rightarrow> error \<Rightarrow> scheduler" where
  "job_fails s a err =
     (let j = (heap s ! a)\<lparr>status := Error, job_error := Some err\<rparr>;
          s1 = s\<lparr>heap := (heap s)[a := j]\<rparr>
      in case callbacks j of
           None \<Rightarrow> s1
         | Some p \<Rightarrow>
             let s2 = processQueue (s1\<lparr>jobs := (jobs s1)(job_id j := None),
                                        activeCount := activeCount s1 - 1\<rparr>)
             in s2\<lparr>promises := (promises s2)[p := Failed err]\<rparr>)"

text \<open>
  What can happen to a scheduler: a caller asks for a URL, or a job that is running
  completes or fails. A job that is not running has no such end, so the event leaves the
  scheduler as it is.
\<close>

datatype event = Download string | Completes nat "bytes option" | Fails nat error

fun fire :: "scheduler \<Rightarrow> event \<Rightarrow> scheduler" where
  "fire s (Download u) = snd (download s u)"
| "fire s (Completes a result) =
     (if a < length (heap s) \<and> status (heap s ! a) = Running then job_completes s a result else s)"
| "fire s (Fails a err) =
     (if a < length (heap s) \<and> status (heap s ! a) = Running then job_fails s a err else s)"

definition run :: "event list \<Rightarrow> scheduler" where
  "run evs = foldl fire new_scheduler evs"

definition running_jobs :: "scheduler \<Rightarrow> nat" where
  "running_jobs s = length (filter (\<lambda>j. status j = Running) (heap s))"

text \<open>
  What a caller can observe of a call of \<^verbatim>\<open>downloadFile\<close>: how its promise ended, the
  cache entry and the metadata of a URL afterwards, and the requests that were sent.
\<close>

definition outcome_of :: "(settled \<times> system \<times> request list) option \<Rightarrow> settled option" where
  "outcome_of res = map_option fst res"

definition cached_after ::
  "(settled \<times> system \<times> request list) option \<Rightarrow> string \<Rightarrow> cached_response option" where
  "cached_after res u = (case res of None \<Rightarrow> None | Some (out, sys, reqs) \<Rightarrow> sys_cache sys u)"

definition metadata_after ::
  "(settled \<times> system \<times> request list) option \<Rightarrow> string \<Rightarrow> metadata option" where
  "metadata_after res u =
     (case res of None \<Rightarrow> None | Some (out, sys, reqs) \<Rightarrow> getMetadata (sys_store sys) u)"

definition requests_sent :: "(settled \<times> system \<times> request list) option \<Rightarrow> request list" where
  "requests_sent res = (case res of None \<Rightarrow> [] | Some (out, sys, reqs) \<Rightarrow> reqs)"

text \<open>
  A session: earlier calls of \<^verbatim>\<open>downloadFile\<close> for the URL, each in a process of its own with
  its network, its quota and its quota handler, however each of them ended, and then one
  more call. The two stores persist from one call to the next.
\<close>

fun attempts :: "(env \<times> bool option) list \<Rightarrow> system \<Rightarrow> string \<Rightarrow> system option" where
  "attempts [] sys u = Some sys"
| "attempts ((e, handler) # rest) sys u =
     (case downloadFile e handler sys u of
        None \<Rightarrow> None
      | Some (out, sys', reqs) \<Rightarrow> attempts rest sys' u)"

definition session ::
  "(env \<times> bool option) list \<Rightarrow> env \<Rightarrow> bool option \<Rightarrow> system \<Rightarrow> string
     \<Rightarrow> (settled \<times> system \<times> request list) option" where
  "session earlier e handler sys u =
     (case attempts earlier sys u of
        None \<Rightarrow> None
      | Some sys1 \<Rightarrow> downloadFile e handler sys1 u)"


section \<open>Invariants of the scheduler\<close>

definition admission_ok :: "scheduler \<Rightarrow> bool" where
  "admission_ok s \<longleftrightarrow>
     activeCount s = int (running_jobs s) \<and> distinct (queue s) \<and>
     (\<forall>a \<in> set (queue s). a < length (heap s) \<and> status (heap s ! a) = Pending)"

definition callbacks_ok :: "scheduler \<Rightarrow> bool" where
  "callbacks_ok s \<longleftrightarrow>
     (\<forall>a < length (heap s).
        status (heap s ! a) = Running \<or> a \<in> set (queue s) \<longrightarrow> callbacks (heap s ! a) \<noteq> None)"

definition scheduler_ok :: "scheduler \<Rightarrow> bool" where
  "scheduler_ok s \<longleftrightarrow> admission_ok s \<and> callbacks_ok s \<and> activeCount s \<le> MAX_CONCURRENT"

section \<open>The store and the server of one resource\<close>

text \<open>
  The store holds exactly the chunks \<open>cs\<close> for a URL: chunk \<open>i\<close> is \<open>cs ! i\<close>, no chunk has
  an index beyond them, and the metadata record, present when there is a chunk, counts
  them and their bytes. This is what \<^verbatim>\<open>clear\<close> and appends in ascending order leave.
\<close>

definition holds :: "string \<Rightarrow> chunk_store \<Rightarrow> bytes list \<Rightarrow> bool" where
  "holds u st cs \<longleftrightarrow>
     (\<forall>i. chunks_tbl st (u, i) = (if i < length cs then Some (cs ! i) else None)) \<and>
     (case metadata_tbl st u of
        None \<Rightarrow> cs = []
      | Some m \<Rightarrow> cs \<noteq> [] \<and> chunkCount m = length cs \<and> downloadedBytes m = length (concat cs))"

definition loop_ok :: "string \<Rightarrow> loop \<Rightarrow> bytes list \<Rightarrow> bool" where
  "loop_ok u l cs \<longleftrightarrow>
     holds u (l_store l) cs \<and> chunkIndex l = length cs \<and> \<not> isMemoryMode (l_job l) \<and>
     job_id (l_job l) = u"

definition never_full :: "quota \<Rightarrow> bool" where
  "never_full full \<longleftrightarrow> (\<forall>st u i c. \<not> full st u i c)"

text \<open>
  A response delivers the bytes \<open>X\<close>: its body hands out values whose concatenation is
  \<open>X\<close>, in any chunking, or a part of \<open>X\<close> from its start when the reader is cut off by an
  error (an abort, a lost connection).
\<close>

definition delivers :: "response \<Rightarrow> bytes \<Rightarrow> bool" where
  "delivers r X \<longleftrightarrow>
     (case body r of
        None \<Rightarrow> False
      | Some vs \<Rightarrow>
          (case body_end r of
             None \<Rightarrow> concat vs = X
           | Some err \<Rightarrow> prefix (concat vs) X))"

text \<open>
  A server of the byte sequence \<open>B\<close> that honours \<^verbatim>\<open>Range\<close>: a request without a range is
  answered 200 with \<open>B\<close>, a request from a start below the size 206 with the rest of \<open>B\<close>,
  and a request from the size or beyond 416 with \<^verbatim>\<open>Content-Range: bytes */<size>\<close>. The
  transport may fail at any request, and the server may answer with an error status
  other than 416.
\<close>

definition unsatisfied_range :: "nat \<Rightarrow> string" where
  "unsatisfied_range n = ''bytes */'' @ nat_digits n"

definition serves :: "bytes \<Rightarrow> (request \<Rightarrow> error + response) \<Rightarrow> bool" where
  "serves B f \<longleftrightarrow>
     (\<forall>req. case f req of
        Inl err \<Rightarrow> True
      | Inr r \<Rightarrow>
          (\<not> response_ok r \<and> http_status r \<noteq> 416) \<or>
          (case range req of
             None \<Rightarrow> http_status r = 200 \<and> delivers r B
           | Some s \<Rightarrow>
               if s < length B then http_status r = 206 \<and> delivers r (drop s B)
               else http_status r = 416 \<and>
                    resp_content_range r = Some (unsatisfied_range (length B))))"

text \<open>
  The two stores agree with the resource \<open>B\<close>: the chunk store holds chunks that make up a
  part of \<open>B\<close> from its start (none at all in a clean state), and a cache entry, if there is
  one, has the body \<open>B\<close>.
\<close>

definition consistent :: "bytes \<Rightarrow> string \<Rightarrow> system \<Rightarrow> bool" where
  "consistent B u sys \<longleftrightarrow>
     (\<exists>cs. holds u (sys_store sys) cs \<and> prefix (concat cs) B) \<and>
     (case sys_cache sys u of None \<Rightarrow> True | Some r \<Rightarrow> cached_body r = B)"

text \<open>The total that \<^verbatim>\<open>_execute\<close> computes from a response.\<close>

definition total_size :: "metadata option \<Rightarrow> nat \<Rightarrow> response \<Rightarrow> number" where
  "total_size meta startByte r =
     (if truthy (resp_content_length r)
      then plus_number (parseInt (the (resp_content_length r))) startByte
      else (case meta of Some m \<Rightarrow> or_zero (totalBytes m) | None \<Rightarrow> Num 0))"


section \<open>The store operation as the specification words it\<close>

text \<open>
  The metadata update of \<^verbatim>\<open>append_chunk\<close> in the words of the specification: the chunk
  count is the maximum, the downloaded bytes grow by the size of the chunk, and the total
  is the latest supplied value that is not zero.
\<close>

definition spec_append_metadata ::
  "metadata option \<Rightarrow> bytes \<Rightarrow> nat \<Rightarrow> number \<Rightarrow> string option \<Rightarrow> metadata" where
  "spec_append_metadata old chunk index total_bytes tag =
     (let m = (case old of
                 None \<Rightarrow> \<lparr>totalBytes = total_bytes, downloadedBytes = 0, chunkCount = 0, etag = tag\<rparr>
               | Some m \<Rightarrow> m)
      in m\<lparr>chunkCount := max (chunkCount m) (index + 1),
            totalBytes := (if total_bytes = Num 0 then totalBytes m else total_bytes),
            downloadedBytes := downloadedBytes m + length chunk\<rparr>)"

section \<open>Concrete states\<close>

definition url_a :: string where
  "url_a = ''https://example.com/a''"

definition unlimited :: quota where
  "unlimited = (\<lambda>st u i chunk. False)"

definition exhausted :: quota where
  "exhausted = (\<lambda>st u i chunk. True)"

text \<open>One stored chunk \<^verbatim>\<open>"start"\<close> of a resource of ten bytes.\<close>

definition store_start :: chunk_store where
  "store_start =
     \<lparr>metadata_tbl = [url_a \<mapsto> \<lparr>totalBytes = Num 10, downloadedBytes = 5, chunkCount = 1,
                                  etag = None\<rparr>],
      chunks_tbl = [(url_a, 0) \<mapsto> [115, 116, 97, 114, 116]]\<rparr>"

text \<open>Two stored chunks of three bytes each.\<close>

definition store_two :: chunk_store where
  "store_two =
     \<lparr>metadata_tbl = [url_a \<mapsto> \<lparr>totalBytes = Num 9, downloadedBytes = 6, chunkCount = 2,
                                  etag = None\<rparr>],
      chunks_tbl = [(url_a, 0) \<mapsto> [1, 2, 3], (url_a, 1) \<mapsto> [4, 5, 6]]\<rparr>"

definition url_b :: string where
  "url_b = ''https://example.com/b''"

definition url_c :: string where
  "url_c = ''https://example.com/c''"

definition url_d :: string where
  "url_d = ''https://example.com/d''"


text \<open>The resource \<^verbatim>\<open>"startend!!"\<close> and a server of a resource that honours \<^verbatim>\<open>Range\<close> and
  sends each body as one value.\<close>

definition resource_ten :: bytes where
  "resource_ten = [115, 116, 97, 114, 116, 101, 110, 100, 33, 33]"

definition honest_server :: "bytes \<Rightarrow> env" where
  "honest_server B =
     \<lparr>fetch = (\<lambda>req. case range req of
                 None \<Rightarrow>
                   Inr \<lparr>http_status = 200, resp_content_length = Some (nat_digits (length B)),
                        resp_content_range = None, resp_etag = None,
                        body = Some [B], body_end = None\<rparr>
               | Some s \<Rightarrow>
                   if s < length B
                   then Inr \<lparr>http_status = 206,
                             resp_content_length = Some (nat_digits (length B - s)),
                             resp_content_range = None, resp_etag = None,
                             body = Some [drop s B], body_end = None\<rparr>
                   else Inr \<lparr>http_status = 416, resp_content_length = None,
                             resp_content_range = Some (unsatisfied_range (length B)),
                             resp_etag = None, body = Some [], body_end = None\<rparr>),
      storageFull = unlimited\<rparr>"

text \<open>The same server behind a connection that is lost after two bytes of every body.\<close>

definition flaky_server :: "bytes \<Rightarrow> env" where
  "flaky_server B =
     \<lparr>fetch = (\<lambda>req. case fetch (honest_server B) req of
                 Inl err \<Rightarrow> Inl err
               | Inr r \<Rightarrow>
                   if http_status r = 416 then Inr r
                   else Inr (r\<lparr>body := map_option (map (take 2)) (body r),
                               body_end := Some NetworkError\<rparr>)),
      storageFull = unlimited\<rparr>"

text \<open>A cache entry of seven bytes beside a partial download in the chunk store.\<close>

definition cached_seven :: system where
  "cached_seven =
     \<lparr>sys_store = store_start,
      sys_cache = [url_a \<mapsto> \<lparr>content_length = Some ''7'', content_type = Some ''text/plain'',
                               cached_body = [99, 111, 110, 116, 101, 110, 116]\<rparr>]\<rparr>"

text \<open>A server that ignores \<^verbatim>\<open>Range\<close> and answers every request 200 with the ten bytes.\<close>

definition ignores_range :: env where
  "ignores_range =
     \<lparr>fetch = (\<lambda>req. Inr \<lparr>http_status = 200, resp_content_length = Some ''10'',
                            resp_content_range = None, resp_etag = None,
                            body = Some [resource_ten], body_end = None\<rparr>),
      storageFull = unlimited\<rparr>"

text \<open>Chunk 0 of three bytes is stored; the rest of the six bytes arrives, and the store
  has no room for it.\<close>

definition store_three :: chunk_store where
  "store_three =
     \<lparr>metadata_tbl = [url_a \<mapsto> \<lparr>totalBytes = Num 6, downloadedBytes = 3, chunkCount = 1,
                                  etag = None\<rparr>],
      chunks_tbl = [(url_a, 0) \<mapsto> [1, 2, 3]]\<rparr>"

definition quota_hit :: env where
  "quota_hit =
     \<lparr>fetch = (\<lambda>req. if range req = Some 3
                      then Inr \<lparr>http_status = 206, resp_content_length = Some ''3'',
                                resp_content_range = None, resp_etag = None,
                                body = Some [[4, 5, 6]], body_end = None\<rparr>
                      else Inl NetworkError),
      storageFull = exhausted\<rparr>"

text \<open>The store records a hundred downloaded bytes; the server has a resource of fifty
  bytes (or of two hundred) and answers a request without range with \<^verbatim>\<open>"fresh"\<close>.\<close>

definition store_hundred :: chunk_store where
  "store_hundred =
     \<lparr>metadata_tbl = [url_a \<mapsto> \<lparr>totalBytes = Num 100, downloadedBytes = 100, chunkCount = 1,
                                  etag = None\<rparr>],
      chunks_tbl = [(url_a, 0) \<mapsto> replicate 100 0]\<rparr>"

definition unsatisfiable :: "string \<Rightarrow> env" where
  "unsatisfiable content_range =
     \<lparr>fetch = (\<lambda>req. case range req of
                 None \<Rightarrow>
                   Inr \<lparr>http_status = 200, resp_content_length = Some ''5'',
                        resp_content_range = None, resp_etag = None,
                        body = Some [[102, 114, 101, 115, 104]], body_end = None\<rparr>
               | Some s \<Rightarrow>
                   Inr \<lparr>http_status = 416, resp_content_length = None,
                        resp_content_range = Some content_range, resp_etag = None,
                        body = Some [], body_end = None\<rparr>),
      storageFull = unlimited\<rparr>"

section \<open>Properties of the ChunkStore\<close>

lemma read_all_from:
  assumes "stream_url s = u" "expectedChunks s = n" "stream_index s = i" "i \<le> k" "k \<le> n"
    and "\<forall>j. i \<le> j \<and> j < k \<longrightarrow> chunks_tbl st (u, j) \<noteq> None"
    and "k < n \<longrightarrow> chunks_tbl st (u, k) = None"
  shows "read_all st s =
           (map (\<lambda>j. the (chunks_tbl st (u, j))) [i..<k],
            if k < n then Some (MissingChunk k u) else None)"
  using assms
proof (induction "k - i" arbitrary: i s)
  case 0
  then have "i = k" by simp
  with 0 show ?case
    by (subst read_all.simps) (auto simp: pull_def)
next
  case (Suc d)
  then have lt: "i < k" by simp
  with Suc.prems obtain c where c: "chunks_tbl st (u, i) = Some c" by auto
  let ?s' = "s\<lparr>stream_index := i + 1\<rparr>"
  have p: "pull st s = (Enqueue c, ?s')"
    using Suc.prems lt c by (simp add: pull_def)
  have "read_all st ?s' =
           (map (\<lambda>j. the (chunks_tbl st (u, j))) [i + 1..<k],
            if k < n then Some (MissingChunk k u) else None)"
    using Suc.hyps(2) Suc.prems lt by (intro Suc.hyps(1)) auto
  then show ?case
    using p c lt by (subst read_all.simps) (simp add: upt_conv_Cons)
qed

text \<open>
  C5, as the code has it. A committed \<^verbatim>\<open>appendChunk\<close> stores the chunk and leaves this
  metadata record for the URL: the chunk count is the maximum of the old count and
  \<open>index + 1\<close>; the downloaded bytes are the size of the chunk when \<open>index = 0\<close> and the
  old value (zero for a new record) plus the size otherwise; the total is the supplied
  value, whatever it is; the validator is the supplied one only for a new record.
\<close>

theorem appendChunk_metadata:
  assumes "appendChunk full st u chunk index total_bytes tag = Inr st'"
  shows "metadata_tbl st' u =
           Some \<lparr>totalBytes = total_bytes,
                 downloadedBytes =
                   (if index = 0 then length chunk
                    else (case metadata_tbl st u of None \<Rightarrow> 0 | Some m \<Rightarrow> downloadedBytes m)
                         + length chunk),
                 chunkCount =
                   max (case metadata_tbl st u of None \<Rightarrow> 0 | Some m \<Rightarrow> chunkCount m) (index + 1),
                 etag = (case metadata_tbl st u of None \<Rightarrow> tag | Some m \<Rightarrow> etag m)\<rparr>
         \<and> chunks_tbl st' (u, index) = Some chunk"
  using assms
  by (auto simp: appendChunk_def Let_def split: if_splits option.splits)

theorem appendChunk_metadata_witness:
  "\<not> isl (appendChunk unlimited store_start url_a [9, 9] 1 (Num 10) None)
   \<and> metadata_tbl (projr (appendChunk unlimited store_start url_a [9, 9] 1 (Num 10) None)) url_a =
       Some \<lparr>totalBytes = Num 10, downloadedBytes = 7, chunkCount = 2, etag = None\<rparr>"
proof -
  have h: "appendChunk unlimited store_start url_a [9, 9] 1 (Num 10) None =
             Inr (projr (appendChunk unlimited store_start url_a [9, 9] 1 (Num 10) None))"
    by (simp add: appendChunk_def unlimited_def Let_def)
  have i: "\<not> isl (appendChunk unlimited store_start url_a [9, 9] 1 (Num 10) None)"
    by (simp add: appendChunk_def unlimited_def Let_def)
  have m: "metadata_tbl (projr (appendChunk unlimited store_start url_a [9, 9] 1 (Num 10) None)) url_a =
       Some \<lparr>totalBytes = Num 10, downloadedBytes = 7, chunkCount = 2, etag = None\<rparr>"
    using appendChunk_metadata [OF h] by (simp add: store_start_def)
  from i m show ?thesis by (rule conjI)
qed

text \<open>
  C5, as the specification states it, fails on the code. On a record with five downloaded
  bytes and a total of ten, a committed append of two bytes at index 0 with total 0
  leaves two downloaded bytes and the total 0, where the specification's update gives
  seven and ten.
\<close>

theorem appendChunk_index_zero_counterexample:
  "(case appendChunk unlimited store_start url_a [9, 9] 0 (Num 0) None of
      Inl err \<Rightarrow> None
    | Inr st' \<Rightarrow> metadata_tbl st' url_a) =
     Some \<lparr>totalBytes = Num 0, downloadedBytes = 2, chunkCount = 1, etag = None\<rparr>
   \<and> spec_append_metadata (metadata_tbl store_start url_a) [9, 9] 0 (Num 0) None =
       \<lparr>totalBytes = Num 10, downloadedBytes = 7, chunkCount = 1, etag = None\<rparr>"
  by (simp add: appendChunk_def unlimited_def store_start_def spec_append_metadata_def Let_def)

text \<open>
  C9. Read to its end, the stream of \<^verbatim>\<open>getStream(url, expectedChunks)\<close> hands out the
  stored chunks of the indices below \<open>expectedChunks\<close> in ascending order and then closes;
  when some index below \<open>expectedChunks\<close> has no chunk, it hands out the chunks before the
  first such index and then fails with the missing-chunk error that names this index.
\<close>

theorem getStream_emits_stored_chunks_in_order:
  "((\<forall>i<n. chunks_tbl st (u, i) \<noteq> None) \<longrightarrow>
      read_all st (getStream u n) = (map (\<lambda>i. the (chunks_tbl st (u, i))) [0..<n], None))
   \<and> (k < n \<and> chunks_tbl st (u, k) = None \<and> (\<forall>i<k. chunks_tbl st (u, i) \<noteq> None) \<longrightarrow>
      read_all st (getStream u n) =
        (map (\<lambda>i. the (chunks_tbl st (u, i))) [0..<k], Some (MissingChunk k u)))"
proof (intro conjI impI)
  assume "\<forall>i<n. chunks_tbl st (u, i) \<noteq> None"
  then show "read_all st (getStream u n) = (map (\<lambda>i. the (chunks_tbl st (u, i))) [0..<n], None)"
    using read_all_from [of "getStream u n" u n 0 n st] by (simp add: getStream_def)
next
  assume "k < n \<and> chunks_tbl st (u, k) = None \<and> (\<forall>i<k. chunks_tbl st (u, i) \<noteq> None)"
  then show "read_all st (getStream u n) =
        (map (\<lambda>i. the (chunks_tbl st (u, i))) [0..<k], Some (MissingChunk k u))"
    using read_all_from [of "getStream u n" u n 0 k st] by (simp add: getStream_def)
qed

theorem getStream_emits_stored_chunks_in_order_witness:
  "chunks_tbl store_two (url_a, 0) \<noteq> None
   \<and> chunks_tbl store_two (url_a, 1) \<noteq> None
   \<and> read_all store_two (getStream url_a 2) = ([[1, 2, 3], [4, 5, 6]], None)
   \<and> chunks_tbl store_two (url_a, 2) = None
   \<and> read_all store_two (getStream url_a 3) = ([[1, 2, 3], [4, 5, 6]], Some (MissingChunk 2 url_a))"
proof -
  have all: "\<forall>i<2. chunks_tbl store_two (url_a, i) \<noteq> None"
    by (simp add: store_two_def url_a_def numeral_2_eq_2 less_Suc_eq)
  have none: "chunks_tbl store_two (url_a, 2) = None"
    by (simp add: store_two_def)
  have upt: "[0..<2] = [0, Suc 0]"
    by (simp add: numeral_2_eq_2)
  have vals: "map (\<lambda>i. the (chunks_tbl store_two (url_a, i))) [0..<2] = [[1, 2, 3], [4, 5, 6]]"
    unfolding upt by (simp add: store_two_def)
  show ?thesis
    using getStream_emits_stored_chunks_in_order [of 2 store_two url_a 2]
          getStream_emits_stored_chunks_in_order [of 3 store_two url_a 2]
          all none vals
    by (simp add: store_two_def)
qed

section \<open>Properties of the DownloadManager\<close>

text \<open>
  C10. For a cached entry without a \<^verbatim>\<open>Content-Length\<close> header \<^verbatim>\<open>checkCacheIntegrity\<close>
  answers ok, whatever the stored bytes are; and it reports a size mismatch only for an
  entry that has the header.
\<close>

theorem checkCacheIntegrity_without_content_length:
  "(cache u = Some r \<and> content_length r = None \<longrightarrow>
      checkCacheIntegrity cache u = \<lparr>ok = True, reason = None, missing = None\<rparr>)
   \<and> (reason (checkCacheIntegrity cache u) = Some (SizeMismatch expected got) \<longrightarrow>
      (\<exists>r' v. cache u = Some r' \<and> content_length r' = Some v \<and> v \<noteq> []))"
  by (cases "cache u"; cases "content_length (the (cache u))")
     (auto simp: checkCacheIntegrity_def Let_def split: if_splits)

theorem checkCacheIntegrity_without_content_length_witness:
  "checkCacheIntegrity
     [url_a \<mapsto> \<lparr>content_length = None, content_type = None, cached_body = [1, 2, 3]\<rparr>] url_a =
     \<lparr>ok = True, reason = None, missing = None\<rparr>
   \<and> reason (checkCacheIntegrity
        [url_a \<mapsto> \<lparr>content_length = Some ''7'', content_type = None, cached_body = [1, 2, 3]\<rparr>]
        url_a) = Some (SizeMismatch (Num 7) 3)"
proof -
  have "reason (checkCacheIntegrity
        [url_a \<mapsto> \<lparr>content_length = Some ''7'', content_type = None, cached_body = [1, 2, 3]\<rparr>]
        url_a) = Some (SizeMismatch (Num 7) 3)"
    by (simp add: checkCacheIntegrity_def parseInt_def is_space_def is_digit_def
          digits_value_def digit_value_def)
  then show ?thesis
    using checkCacheIntegrity_without_content_length
            [of "[url_a \<mapsto> \<lparr>content_length = None, content_type = None, cached_body = [1, 2, 3]\<rparr>]"
                url_a "\<lparr>content_length = None, content_type = None, cached_body = [1, 2, 3]\<rparr>"]
    by simp
qed

section \<open>Properties of the DownloadScheduler\<close>




lemma count_update:
  "a < length h \<Longrightarrow>
     length (filter P (h[a := j])) + (if P (h ! a) then 1 else 0) =
     length (filter P h) + (if P j then 1 else 0)"
proof (induction h arbitrary: a)
  case Nil
  then show ?case by simp
next
  case (Cons x h)
  then show ?case by (cases a) auto
qed

lemma running_start:
  assumes "a < length (heap s)" "status (heap s ! a) = Pending"
  shows "running_jobs (s\<lparr>queue := q, activeCount := c, heap := (heap s)[a := start_job (heap s ! a)]\<rparr>)
           = running_jobs s + 1"
  using count_update [OF assms(1), where P = "\<lambda>j. status j = Running" and j = "start_job (heap s ! a)"] assms(2)
  by (simp add: running_jobs_def start_job_def)

lemma nth_update_at:
  "b < length h \<Longrightarrow> h[a := g (h ! a)] ! b = (if a = b then g (h ! b) else h ! b)"
  by (cases "a = b") simp_all

lemma start_job_callbacks: "callbacks (start_job j) = callbacks j"
  by (simp add: start_job_def)

lemma start_job_status:
  "status (start_job j) = (if status j = Completed then Completed else Running)"
  by (simp add: start_job_def)

lemma heap_start_nth:
  "b < length h \<Longrightarrow> h[a := start_job (h ! a)] ! b = (if a = b then start_job (h ! b) else h ! b)"
  by (rule nth_update_at)

lemma processQueue_stop:
  "activeCount s \<ge> MAX_CONCURRENT \<or> queue s = [] \<Longrightarrow> processQueue s = s"
  by (subst processQueue.simps) auto

lemma processQueue_admit:
  "\<not> activeCount s \<ge> MAX_CONCURRENT \<Longrightarrow> queue s = a # rest \<Longrightarrow>
     processQueue s =
       processQueue (s\<lparr>queue := rest, activeCount := activeCount s + 1,
                        heap := (heap s)[a := start_job (heap s ! a)]\<rparr>)"
  by (subst processQueue.simps) simp

lemma processQueue_cases:
  obtains (stop) "processQueue s = s"
  | (admit) a rest where "\<not> activeCount s \<ge> MAX_CONCURRENT" "queue s = a # rest"
      "processQueue s =
         processQueue (s\<lparr>queue := rest, activeCount := activeCount s + 1,
                          heap := (heap s)[a := start_job (heap s ! a)]\<rparr>)"
  by (cases "activeCount s \<ge> MAX_CONCURRENT"; cases "queue s")
     (auto simp: processQueue_stop processQueue_admit)

lemma processQueue_admission: "admission_ok s \<Longrightarrow> admission_ok (processQueue s)"
proof (induction s rule: processQueue.induct)
  case (1 s)
  show ?case
  proof (cases s rule: processQueue_cases)
    case stop
    with 1 show ?thesis by simp
  next
    case (admit a rest)
    let ?s' = "s\<lparr>queue := rest, activeCount := activeCount s + 1,
                  heap := (heap s)[a := start_job (heap s ! a)]\<rparr>"
    from "1.prems" admit have a: "a < length (heap s)" "status (heap s ! a) = Pending"
      and d: "distinct rest" "a \<notin> set rest"
      and r: "\<forall>b \<in> set rest. b < length (heap s) \<and> status (heap s ! b) = Pending"
      and c: "activeCount s = int (running_jobs s)"
      by (auto simp: admission_ok_def)
    have "running_jobs ?s' = running_jobs s + 1"
      by (rule running_start [OF a])
    then have "admission_ok ?s'"
      unfolding admission_ok_def using a c d r by (auto simp: nth_list_update)
    then show ?thesis
      using "1.IH" [OF admit(1,2)] admit(3) by simp
  qed
qed

lemma processQueue_bound:
  "activeCount s \<le> MAX_CONCURRENT \<Longrightarrow> activeCount (processQueue s) \<le> MAX_CONCURRENT"
proof (induction s rule: processQueue.induct)
  case (1 s)
  show ?case
  proof (cases s rule: processQueue_cases)
    case stop
    with 1 show ?thesis by simp
  next
    case (admit a rest)
    then show ?thesis using "1.IH" [OF admit(1,2)] by simp
  qed
qed

lemma processQueue_length: "length (heap (processQueue s)) = length (heap s)"
proof (induction s rule: processQueue.induct)
  case (1 s)
  show ?case
  proof (cases s rule: processQueue_cases)
    case stop
    then show ?thesis by simp
  next
    case (admit a rest)
    then show ?thesis using "1.IH" [OF admit(1,2)] by simp
  qed
qed

lemma processQueue_promises: "promises (processQueue s) = promises s"
proof (induction s rule: processQueue.induct)
  case (1 s)
  show ?case
  proof (cases s rule: processQueue_cases)
    case stop
    then show ?thesis by simp
  next
    case (admit a rest)
    then show ?thesis using "1.IH" [OF admit(1,2)] by simp
  qed
qed

lemma processQueue_queue: "set (queue (processQueue s)) \<subseteq> set (queue s)"
proof (induction s rule: processQueue.induct)
  case (1 s)
  show ?case
  proof (cases s rule: processQueue_cases)
    case stop
    then show ?thesis by simp
  next
    case (admit a rest)
    then show ?thesis using "1.IH" [OF admit(1,2)] by auto
  qed
qed

lemma processQueue_callbacks:
  "b < length (heap s) \<Longrightarrow> callbacks (heap (processQueue s) ! b) = callbacks (heap s ! b)"
proof (induction s rule: processQueue.induct)
  case (1 s)
  show ?case
  proof (cases s rule: processQueue_cases)
    case stop
    then show ?thesis by simp
  next
    case (admit a rest)
    then show ?thesis
      using "1.IH" [OF admit(1,2)] "1.prems"
      by (simp add: heap_start_nth start_job_callbacks)
  qed
qed

lemma processQueue_running:
  "b < length (heap s) \<Longrightarrow> status (heap (processQueue s) ! b) = Running \<Longrightarrow>
     status (heap s ! b) = Running \<or> b \<in> set (queue s)"
proof (induction s rule: processQueue.induct)
  case (1 s)
  show ?case
  proof (cases s rule: processQueue_cases)
    case stop
    with "1.prems" show ?thesis by simp
  next
    case (admit a rest)
    then show ?thesis
      using "1.IH" [OF admit(1,2)] "1.prems"
      by (auto simp: heap_start_nth start_job_status split: if_splits)
  qed
qed

lemma processQueue_callbacks_ok:
  assumes "callbacks_ok s"
  shows "callbacks_ok (processQueue s)"
  unfolding callbacks_ok_def
proof (intro allI impI)
  fix a
  assume a: "a < length (heap (processQueue s))"
    and r: "status (heap (processQueue s) ! a) = Running \<or> a \<in> set (queue (processQueue s))"
  from a have a': "a < length (heap s)" by (simp add: processQueue_length)
  from r have "status (heap s ! a) = Running \<or> a \<in> set (queue s)"
    using processQueue_running [OF a'] processQueue_queue [of s] by blast
  with assms a' have "callbacks (heap s ! a) \<noteq> None"
    unfolding callbacks_ok_def by blast
  then show "callbacks (heap (processQueue s) ! a) \<noteq> None"
    by (simp add: processQueue_callbacks [OF a'])
qed

lemma running_jobs_statuses:
  "running_jobs s = length (filter (\<lambda>st. st = Running) (map status (heap s)))"
  by (simp add: running_jobs_def length_filter_map comp_def)

lemma waitForJob_statuses:
  "map status (heap (snd (waitForJob s a))) = map status (heap s)"
  by (simp add: waitForJob_def list_eq_iff_nth_eq
        nth_update_at [where g = "\<lambda>j. j\<lparr>callbacks := Some (length (promises s))\<rparr>"])

lemma waitForJob_admission:
  assumes "admission_ok s"
  shows "admission_ok (snd (waitForJob s a))"
proof -
  have r: "running_jobs (snd (waitForJob s a)) = running_jobs s"
    by (simp only: running_jobs_statuses waitForJob_statuses)
  have h: "\<And>b. b < length (heap s) \<Longrightarrow>
             status (heap (snd (waitForJob s a)) ! b) = status (heap s ! b)"
    using waitForJob_statuses [of s a]
    by (metis length_map nth_map)
  have q: "queue (snd (waitForJob s a)) = queue s"
       "activeCount (snd (waitForJob s a)) = activeCount s"
       "length (heap (snd (waitForJob s a))) = length (heap s)"
    by (simp_all add: waitForJob_def)
  from assms show ?thesis
    unfolding admission_ok_def r q using h by auto
qed



lemma waitForJob_callbacks_ok:
  assumes "\<forall>b < length (heap s). b \<noteq> a \<longrightarrow>
             status (heap s ! b) = Running \<or> b \<in> set (queue s) \<longrightarrow> callbacks (heap s ! b) \<noteq> None"
  shows "callbacks_ok (snd (waitForJob s a))"
  unfolding callbacks_ok_def
proof (intro allI impI)
  fix b
  assume b: "b < length (heap (snd (waitForJob s a)))"
    and r: "status (heap (snd (waitForJob s a)) ! b) = Running \<or> b \<in> set (queue (snd (waitForJob s a)))"
  from b have b': "b < length (heap s)" by (simp add: waitForJob_def)
  show "callbacks (heap (snd (waitForJob s a)) ! b) \<noteq> None"
  proof (cases "b = a")
    case True
    with b' show ?thesis by (simp add: waitForJob_def)
  next
    case False
    with b' r have "status (heap s ! b) = Running \<or> b \<in> set (queue s)"
      by (simp add: waitForJob_def)
    with assms b' False have "callbacks (heap s ! b) \<noteq> None" by blast
    with False b' show ?thesis by (simp add: waitForJob_def)
  qed
qed

lemma waitForJob_ok:
  assumes "scheduler_ok s"
  shows "scheduler_ok (snd (waitForJob s a))"
proof -
  have "callbacks_ok (snd (waitForJob s a))"
    using assms by (intro waitForJob_callbacks_ok) (auto simp: scheduler_ok_def callbacks_ok_def)
  moreover have "activeCount (snd (waitForJob s a)) = activeCount s"
    by (simp add: waitForJob_def)
  ultimately show ?thesis
    using assms waitForJob_admission [of s a] by (simp add: scheduler_ok_def)
qed

lemma download_new_ok:
  assumes ok: "scheduler_ok s" and new: "jobs s u = None"
  shows "scheduler_ok (snd (download s u))"
proof -
  let ?a = "length (heap s)"
  let ?j = "(new_DownloadJob u)\<lparr>quotaHandler := scheduler_quotaHandler s\<rparr>"
  let ?s1 = "s\<lparr>heap := heap s @ [?j], jobs := (jobs s)(u \<mapsto> ?a), queue := queue s @ [?a]\<rparr>"
  have d: "snd (download s u) = snd (waitForJob (processQueue ?s1) ?a)"
    using new by (simp add: download_def Let_def)
  from ok have adm: "admission_ok s" and cb: "callbacks_ok s" and le: "activeCount s \<le> MAX_CONCURRENT"
    by (simp_all add: scheduler_ok_def)
  have pend: "status ?j = Pending" by (simp add: new_DownloadJob_def)
  have run1: "running_jobs ?s1 = running_jobs s"
    using pend by (simp add: running_jobs_def)
  have adm1: "admission_ok ?s1"
    unfolding admission_ok_def run1
    using adm pend by (auto simp: admission_ok_def nth_append)
  have adm2: "admission_ok (processQueue ?s1)"
    by (rule processQueue_admission [OF adm1])
  have le2: "activeCount (processQueue ?s1) \<le> MAX_CONCURRENT"
    using le by (intro processQueue_bound) simp
  have len2: "length (heap (processQueue ?s1)) = Suc ?a"
    by (simp add: processQueue_length)
  have cb2: "\<forall>b < length (heap (processQueue ?s1)). b \<noteq> ?a \<longrightarrow>
               status (heap (processQueue ?s1) ! b) = Running \<or> b \<in> set (queue (processQueue ?s1))
               \<longrightarrow> callbacks (heap (processQueue ?s1) ! b) \<noteq> None"
  proof (intro allI impI)
    fix b
    assume b: "b < length (heap (processQueue ?s1))" and ne: "b \<noteq> ?a"
      and r: "status (heap (processQueue ?s1) ! b) = Running \<or> b \<in> set (queue (processQueue ?s1))"
    from b ne len2 have b': "b < length (heap s)" by simp
    then have b1: "b < length (heap ?s1)" by simp
    from r have "status (heap ?s1 ! b) = Running \<or> b \<in> set (queue ?s1)"
      using processQueue_running [OF b1] processQueue_queue [of ?s1] by blast
    with b' ne have "status (heap s ! b) = Running \<or> b \<in> set (queue s)"
      by (simp add: nth_append)
    with cb b' have "callbacks (heap s ! b) \<noteq> None"
      unfolding callbacks_ok_def by blast
    with b' have "callbacks (heap ?s1 ! b) \<noteq> None"
      by (simp add: nth_append)
    then show "callbacks (heap (processQueue ?s1) ! b) \<noteq> None"
      unfolding processQueue_callbacks [OF b1] .
  qed
  have "callbacks_ok (snd (waitForJob (processQueue ?s1) ?a))"
    by (rule waitForJob_callbacks_ok [OF cb2])
  moreover have "activeCount (snd (waitForJob (processQueue ?s1) ?a)) = activeCount (processQueue ?s1)"
    by (simp add: waitForJob_def)
  ultimately show ?thesis
    unfolding d using waitForJob_admission [OF adm2, of ?a] le2
    by (simp add: scheduler_ok_def)
qed

lemma download_ok: "scheduler_ok s \<Longrightarrow> scheduler_ok (snd (download s u))"
proof (cases "jobs s u")
  case None
  assume "scheduler_ok s"
  then show ?thesis using None by (rule download_new_ok)
next
  case (Some a)
  assume "scheduler_ok s"
  then show ?thesis using Some by (simp add: download_def waitForJob_ok)
qed

text \<open>A running job that stops with its slot given back and the queue drained.\<close>

lemma job_stops_ok:
  assumes ok: "scheduler_ok s" and a: "a < length (heap s)" and r: "status (heap s ! a) = Running"
    and st: "status j \<noteq> Running" "status j \<noteq> Pending"
  shows "scheduler_ok (processQueue (s\<lparr>heap := (heap s)[a := j], jobs := m,
                                        activeCount := activeCount s - 1\<rparr>))"
proof -
  let ?s2 = "s\<lparr>heap := (heap s)[a := j], jobs := m, activeCount := activeCount s - 1\<rparr>"
  from ok have adm: "admission_ok s" and cb: "callbacks_ok s" and le: "activeCount s \<le> MAX_CONCURRENT"
    by (simp_all add: scheduler_ok_def)
  have "running_jobs ?s2 + 1 = running_jobs s"
    using count_update [OF a, where P = "\<lambda>j. status j = Running" and j = j] r st
    by (simp add: running_jobs_def)
  then have run2: "activeCount ?s2 = int (running_jobs ?s2)"
    using adm by (simp add: admission_ok_def)
  have notq: "a \<notin> set (queue s)"
    using adm r by (auto simp: admission_ok_def)
  have adm2: "admission_ok ?s2"
    unfolding admission_ok_def
    using run2 adm notq a by (auto simp: admission_ok_def nth_list_update)
  have cb2: "callbacks_ok ?s2"
    unfolding callbacks_ok_def
    using cb st notq a by (auto simp: callbacks_ok_def nth_list_update)
  have le2: "activeCount ?s2 \<le> MAX_CONCURRENT"
    using le by simp
  show ?thesis
    unfolding scheduler_ok_def
    using processQueue_admission [OF adm2] processQueue_callbacks_ok [OF cb2]
          processQueue_bound [OF le2]
    by simp
qed

lemma promises_update_ok: "scheduler_ok s \<Longrightarrow> scheduler_ok (s\<lparr>promises := ps\<rparr>)"
  by (simp add: scheduler_ok_def admission_ok_def callbacks_ok_def running_jobs_def)

lemma job_completes_ok:
  assumes ok: "scheduler_ok s" and a: "a < length (heap s)" and r: "status (heap s ! a) = Running"
  shows "scheduler_ok (job_completes s a result)"
proof -
  from ok a r obtain p where p: "callbacks (heap s ! a) = Some p"
    by (auto simp: scheduler_ok_def callbacks_ok_def)
  show ?thesis
    using p job_stops_ok [OF ok a r, of "(heap s ! a)\<lparr>status := Completed\<rparr>"]
    by (simp add: job_completes_def Let_def promises_update_ok)
qed

lemma job_fails_ok:
  assumes ok: "scheduler_ok s" and a: "a < length (heap s)" and r: "status (heap s ! a) = Running"
  shows "scheduler_ok (job_fails s a err)"
proof -
  from ok a r obtain p where p: "callbacks (heap s ! a) = Some p"
    by (auto simp: scheduler_ok_def callbacks_ok_def)
  show ?thesis
    using p job_stops_ok [OF ok a r, of "(heap s ! a)\<lparr>status := Error, job_error := Some err\<rparr>"]
    by (simp add: job_fails_def Let_def promises_update_ok)
qed

lemma fire_ok: "scheduler_ok s \<Longrightarrow> scheduler_ok (fire s ev)"
  by (cases ev) (simp_all add: download_ok job_completes_ok job_fails_ok)

lemma foldl_fire_ok: "scheduler_ok s \<Longrightarrow> scheduler_ok (foldl fire s evs)"
  by (induction evs arbitrary: s) (simp_all add: fire_ok)

lemma new_scheduler_ok: "scheduler_ok new_scheduler"
  by (simp add: scheduler_ok_def admission_ok_def callbacks_ok_def new_scheduler_def
        running_jobs_def MAX_CONCURRENT_def)

text \<open>
  C8. After any sequence of download requests, job completions and job failures, the
  number of jobs whose status is running is at most \<open>MAX_CONCURRENT\<close>, and it is the
  value of \<open>activeCount\<close>: every admission by \<^verbatim>\<open>processQueue\<close> starts one pending job and
  adds one, every job that completes or fails gives one back.
\<close>

theorem running_jobs_bounded:
  "int (running_jobs (run evs)) \<le> MAX_CONCURRENT \<and> activeCount (run evs) = int (running_jobs (run evs))"
  using foldl_fire_ok [OF new_scheduler_ok, of evs]
  by (simp add: run_def scheduler_ok_def admission_ok_def)



lemmas scheduler_eval =
  run_def download_def waitForJob_def new_scheduler_def new_DownloadJob_def Let_def
  MAX_CONCURRENT_def start_job_def running_jobs_def job_completes_def job_fails_def
  processQueue.simps url_a_def url_b_def url_c_def url_d_def

theorem running_jobs_bounded_witness:
  "int (running_jobs (run [Download url_a, Download url_b, Download url_c, Download url_d]))
     \<le> MAX_CONCURRENT
   \<and> running_jobs (run [Download url_a, Download url_b, Download url_c, Download url_d]) = 3
   \<and> queue (run [Download url_a, Download url_b, Download url_c, Download url_d]) = [3]
   \<and> running_jobs (run [Download url_a, Download url_b, Download url_c, Download url_d,
                         Completes 1 None]) = 3
   \<and> queue (run [Download url_a, Download url_b, Download url_c, Download url_d,
                  Completes 1 None]) = []"
  using running_jobs_bounded [of "[Download url_a, Download url_b, Download url_c, Download url_d]"]
  by (simp add: scheduler_eval)

text \<open>
  C6, as the specification states it, fails on the code: \<^verbatim>\<open>waitForJob\<close> replaces the
  callbacks of the job, so after two requests for one URL the promise of the first
  caller is still waiting when the job has completed or failed.
\<close>

theorem deduplicated_download_counterexample:
  "promises (run [Download url_a, Download url_a, Completes 0 None]) = [Waiting, Fulfilled None]
   \<and> promises (run [Download url_a, Download url_a, Fails 0 NetworkError]) = [Waiting, Failed NetworkError]"
  by (simp add: scheduler_eval)

text \<open>
  C6, as the code has it. A request for a URL that has a tracked job returns a new promise
  and installs its callbacks on the job in place of the earlier ones. When the job then
  completes or fails, this newest promise is resolved or rejected, and every promise
  that existed before the request is left as it was.
\<close>

theorem deduplicated_download_settles_latest:
  assumes "jobs s u = Some a" "a < length (heap s)"
  shows "fst (download s u) = length (promises s)
     \<and> callbacks (heap (snd (download s u)) ! a) = Some (length (promises s))
     \<and> promises (job_completes (snd (download s u)) a result) = promises s @ [Fulfilled result]
     \<and> promises (job_fails (snd (download s u)) a err) = promises s @ [Failed err]"
  using assms
  by (simp add: download_def waitForJob_def job_completes_def job_fails_def Let_def
        processQueue_promises)

theorem deduplicated_download_settles_latest_witness:
  "jobs (run [Download url_a]) url_a = Some 0
   \<and> promises (run [Download url_a]) = [Waiting]
   \<and> fst (download (run [Download url_a]) url_a) = 1
   \<and> promises (job_completes (snd (download (run [Download url_a]) url_a)) 0 None) =
       [Waiting, Fulfilled None]
   \<and> promises (job_fails (snd (download (run [Download url_a]) url_a)) 0 NetworkError) =
       [Waiting, Failed NetworkError]"
proof -
  have j: "jobs (run [Download url_a]) url_a = Some 0"
    by (simp add: scheduler_eval)
  have l: "0 < length (heap (run [Download url_a]))"
    by (simp add: scheduler_eval)
  have p: "promises (run [Download url_a]) = [Waiting]"
    by (simp add: scheduler_eval)
  show ?thesis
    using deduplicated_download_settles_latest [OF j l, of None NetworkError] j p
    by simp
qed

text \<open>A lone request through the scheduler: the job is created with the scheduler's quota
  handler, started at once, and its callbacks settle the promise the caller awaits. This
  is the job that \<open>downloadFile\<close> runs.\<close>

lemma lone_download_starts_job:
  "download (new_scheduler\<lparr>scheduler_quotaHandler := handler\<rparr>) u =
     (0, \<lparr>heap = [(new_DownloadJob u)\<lparr>status := Running, quotaHandler := handler,
                                        callbacks := Some 0\<rparr>],
          jobs = [u \<mapsto> 0], queue = [], activeCount = 1, promises = [Waiting],
          scheduler_quotaHandler = handler\<rparr>)"
  by (simp add: download_def waitForJob_def new_scheduler_def Let_def processQueue.simps
        MAX_CONCURRENT_def start_job_def new_DownloadJob_def)

lemma lone_download_settles:
  "promises (job_completes (snd (download (new_scheduler\<lparr>scheduler_quotaHandler := handler\<rparr>) u))
               0 result) = [Fulfilled result]
   \<and> promises (job_fails (snd (download (new_scheduler\<lparr>scheduler_quotaHandler := handler\<rparr>) u))
               0 err) = [Failed err]"
  by (simp add: lone_download_starts_job job_completes_def job_fails_def Let_def
        processQueue_promises)

section \<open>Properties of the DownloadJob\<close>

lemma holds_clear: "holds u (clear st u) []"
  by (simp add: holds_def clear_def)

lemma holds_append:
  assumes "holds u st cs" "\<not> full st u (length cs) c"
  shows "\<exists>st'. appendChunk full st u c (length cs) T tag = Inr st' \<and> holds u st' (cs @ [c])
           \<and> map_option totalBytes (metadata_tbl st' u) = Some T"
  using assms
  by (auto simp: appendChunk_def holds_def Let_def nth_append split: option.splits)

lemma holds_chunks:
  assumes "holds u st cs"
  shows "map (\<lambda>j. the (chunks_tbl st (u, j))) [0..<length cs] = cs"
  using assms by (auto simp: holds_def intro!: nth_equalityI)

lemma holds_read_all:
  assumes "holds u st cs"
  shows "read_all st (getStream u (length cs)) = (cs, None)"
  using read_all_from [of "getStream u (length cs)" u "length cs" 0 "length cs" st]
        holds_chunks [OF assms] assms
  by (simp add: getStream_def holds_def)

lemma holds_read_all_beyond:
  assumes "holds u st cs"
  shows "read_all st (getStream u (Suc (length cs))) = (cs, Some (MissingChunk (length cs) u))"
  using read_all_from [of "getStream u (Suc (length cs))" u "Suc (length cs)" 0 "length cs" st]
        holds_chunks [OF assms] assms
  by (simp add: getStream_def holds_def)

text \<open>A flush of a non-empty buffer either appends the buffer as the next chunk or throws
  the quota error and leaves the store as it was: the recovery into memory asks the
  stream for one chunk more than the store holds.\<close>

lemma flush_ok:
  assumes "loop_ok u l cs"
  shows "case flush full T tag l of
           Ok l' \<Rightarrow>
             pendingChunks l' = [] \<and>
             (if pendingChunks l = [] then l' = l
              else loop_ok u l' (cs @ [concat (pendingChunks l)]) \<and>
                   map_option totalBytes (metadata_tbl (l_store l') u) = Some T)
         | Threw err l' \<Rightarrow> l_store l' = l_store l \<and> pendingChunks l \<noteq> []"
proof (cases "pendingChunks l = []")
  case True
  with assms show ?thesis by (simp add: flush_def)
next
  case False
  let ?blob = "concat (pendingChunks l)"
  from assms have h: "holds u (l_store l) cs" and i: "chunkIndex l = length cs"
    and m: "\<not> isMemoryMode (l_job l)" and j: "job_id (l_job l) = u"
    by (simp_all add: loop_ok_def)
  show ?thesis
  proof (cases "full (l_store l) u (length cs) ?blob")
    case True
    have "appendChunk full (l_store l) u ?blob (length cs) T tag = Inl QuotaExceededError"
      using True by (simp add: appendChunk_def)
    then show ?thesis
      using False m i j holds_read_all_beyond [OF h]
      by (simp add: flush_def Let_def split: option.splits)
  next
    case nf: False
    from holds_append [where full = full and c = ?blob and T = T and tag = tag, OF h nf]
    obtain st' where
      a: "appendChunk full (l_store l) u ?blob (length cs) T tag = Inr st'"
      and h': "holds u st' (cs @ [?blob])"
      and t: "map_option totalBytes (metadata_tbl st' u) = Some T"
      by blast
    show ?thesis
      using False m i j a h' t by (simp add: flush_def Let_def loop_ok_def)
  qed
qed



lemma consume_ok:
  assumes "loop_ok u l cs"
  shows "case consume full T tag vs ending l of
           Ok l' \<Rightarrow>
             ending = None \<and> pendingChunks l' = [] \<and>
             (\<exists>more. loop_ok u l' (cs @ more) \<and>
                concat more = concat (pendingChunks l) @ concat vs \<and>
                (more = [] \<longrightarrow> l_store l' = l_store l) \<and>
                (more \<noteq> [] \<longrightarrow> map_option totalBytes (metadata_tbl (l_store l') u) = Some T))
         | Threw err l' \<Rightarrow>
             (\<exists>more. holds u (l_store l') (cs @ more) \<and>
                prefix (concat more) (concat (pendingChunks l) @ concat vs))"
  using assms
proof (induction vs arbitrary: l cs)
  case Nil
  show ?case
  proof (cases ending)
    case (Some err)
    with Nil show ?thesis
      by (auto simp: loop_ok_def intro: exI [of _ "[]"])
  next
    case None
    show ?thesis
    proof (cases "flush full T tag l")
      case (Ok l')
      with flush_ok [OF Nil, where full = full and T = T and tag = tag] None Nil show ?thesis
        by (cases "pendingChunks l = []")
           (auto intro: exI [of _ "[]"] exI [of _ "[concat (pendingChunks l)]"])
    next
      case (Threw err l')
      with flush_ok [OF Nil, where full = full and T = T and tag = tag] None Nil show ?thesis
        by (auto simp: loop_ok_def intro: exI [of _ "[]"])
    qed
  qed
next
  case (Cons v vs)
  let ?l1 = "l\<lparr>l_job := (l_job l)\<lparr>progress_loaded := progress_loaded (l_job l) + length v\<rparr>,
                pendingChunks := pendingChunks l @ [v],
                pendingSize := pendingSize l + length v\<rparr>"
  have ok1: "loop_ok u ?l1 cs"
    using Cons.prems by (simp add: loop_ok_def)
  have p1: "pendingChunks ?l1 = pendingChunks l @ [v]" "l_store ?l1 = l_store l"
    by simp_all
  show ?case
  proof (cases "pendingSize ?l1 \<ge> bufferSize (l_job ?l1)")
    case False
    then have eq: "consume full T tag (v # vs) ending l = consume full T tag vs ending ?l1"
      by (simp add: Let_def)
    show ?thesis
      unfolding eq using Cons.IH [OF ok1] by (simp only: p1 concat_append concat.simps append_Nil2 append_assoc)
  next
    case True
    show ?thesis
    proof (cases "flush full T tag ?l1")
      case (Threw err l2)
      then have eq: "consume full T tag (v # vs) ending l = Threw err l2"
        using True by (simp add: Let_def)
      from flush_ok [OF ok1, where full = full and T = T and tag = tag] Threw have "l_store l2 = l_store l"
        by simp
      with Cons.prems have "holds u (l_store l2) (cs @ [])"
        by (simp add: loop_ok_def)
      then show ?thesis
        unfolding eq by (auto intro!: exI [of _ "[]"])
    next
      case (Ok l2)
      let ?blob = "concat (pendingChunks l @ [v])"
      have eq: "consume full T tag (v # vs) ending l = consume full T tag vs ending l2"
        using True Ok by (simp add: Let_def)
      from flush_ok [OF ok1, where full = full and T = T and tag = tag] Ok
      have ok2: "loop_ok u l2 (cs @ [?blob])" and p2: "pendingChunks l2 = []"
        and t2: "map_option totalBytes (metadata_tbl (l_store l2) u) = Some T"
        by simp_all
      show ?thesis
      proof (cases "consume full T tag vs ending l2")
        case (Ok l')
        with Cons.IH [OF ok2] p2 obtain more where
          e: "ending = None" "pendingChunks l' = []"
          and m: "loop_ok u l' ((cs @ [?blob]) @ more)" "concat more = concat vs"
            "more = [] \<longrightarrow> l_store l' = l_store l2"
            "more \<noteq> [] \<longrightarrow> map_option totalBytes (metadata_tbl (l_store l') u) = Some T"
          by auto
        have "map_option totalBytes (metadata_tbl (l_store l') u) = Some T"
          using m(3,4) t2 by (cases "more = []") simp_all
        then show ?thesis
          unfolding eq using Ok e m(1,2)
          by (auto intro!: exI [of _ "?blob # more"])
      next
        case (Threw err l')
        with Cons.IH [OF ok2] p2 obtain more where
          m: "holds u (l_store l') ((cs @ [?blob]) @ more)" "prefix (concat more) (concat vs)"
          by auto
        then show ?thesis
          unfolding eq using Threw
          by (auto intro!: exI [of _ "?blob # more"])
      qed
    qed
  qed
qed


lemma flush_never_full:
  assumes "never_full full"
  shows "\<exists>l'. flush full T tag l = Ok l'"
  using assms by (simp add: flush_def appendChunk_def Let_def never_full_def)

lemma consume_never_full:
  assumes "never_full full"
  shows "\<exists>l'. consume full T tag vs None l = Ok l'"
proof (induction vs arbitrary: l)
  case Nil
  show ?case using flush_never_full [OF assms, of T tag l] by simp
next
  case (Cons v vs)
  let ?l1 = "l\<lparr>l_job := (l_job l)\<lparr>progress_loaded := progress_loaded (l_job l) + length v\<rparr>,
                pendingChunks := pendingChunks l @ [v],
                pendingSize := pendingSize l + length v\<rparr>"
  obtain l2 where "flush full T tag ?l1 = Ok l2"
    using flush_never_full [OF assms, of T tag ?l1] by blast
  then show ?case
    using Cons.IH [of l2] Cons.IH [of ?l1] by (simp add: Let_def)
qed




lemma digit_char: "k < 10 \<Longrightarrow> is_digit (''0123456789'' ! k) \<and> digit_value (''0123456789'' ! k) = k"
proof -
  assume "k < 10"
  then consider "k = 0" | "k = 1" | "k = 2" | "k = 3" | "k = 4" | "k = 5" | "k = 6" | "k = 7"
    | "k = 8" | "k = 9"
    by atomize_elim arith
  then show ?thesis
    by cases (simp_all add: is_digit_def digit_value_def)
qed

lemma nat_digits_digits: "nat_digits n \<noteq> [] \<and> (\<forall>c \<in> set (nat_digits n). is_digit c)"
proof (induction n rule: nat_digits.induct)
  case (1 n)
  show ?case
  proof (cases "n < 10")
    case True
    then show ?thesis
      using digit_char [of n] by (subst (1 2) nat_digits.simps) simp
  next
    case False
    then show ?thesis
      using 1 digit_char [of "n mod 10"] by (subst (1 2) nat_digits.simps) simp
  qed
qed

lemma digits_value_snoc: "digits_value (ds @ [c]) = 10 * digits_value ds + digit_value c"
  by (simp add: digits_value_def)

lemma digits_value_nat_digits: "digits_value (nat_digits n) = n"
proof (induction n rule: nat_digits.induct)
  case (1 n)
  show ?case
  proof (cases "n < 10")
    case True
    then show ?thesis
      using digit_char [of n] by (subst nat_digits.simps) (simp add: digits_value_def)
  next
    case False
    then show ?thesis
      using 1 digit_char [of "n mod 10"]
      by (subst nat_digits.simps) (simp add: digits_value_snoc)
  qed
qed

lemma takeWhile_nat_digits: "takeWhile is_digit (nat_digits n) = nat_digits n"
  using nat_digits_digits [of n] by (simp add: takeWhile_eq_all_conv)

lemma match_total_unsatisfied:
  "match_total (unsatisfied_range n) = Some (nat_digits n)"
  using nat_digits_digits [of n] by (simp add: unsatisfied_range_def takeWhile_nat_digits)

lemma unsatisfied_range_truthy: "unsatisfied_range n \<noteq> []"
  by (simp add: unsatisfied_range_def)

lemma done_416_unsatisfied:
  assumes "resp_content_range r = Some (unsatisfied_range n)"
  shows "done_416 startByte r = (if startByte \<ge> n then Some n else None)"
  using assms
  by (simp add: done_416_def match_total_unsatisfied digits_value_nat_digits
        unsatisfied_range_truthy)

lemma resumption_holds:
  assumes "holds u (store x) cs" "job_id (job x) = u"
  obtains cs1 x1 where
    "resumption x = (metadata_tbl (store x) u, length (concat cs1), length cs1, x1)"
    "holds u (store x1) cs1" "cs1 = cs \<or> cs1 = []" "job x1 = job x" "requests x1 = requests x"
proof (cases "metadata_tbl (store x) u")
  case None
  with assms have "cs = []" by (simp add: holds_def)
  with None assms that [of "[]" x] show ?thesis
    by (simp add: resumption_def getMetadata_def)
next
  case (Some m)
  with assms have m: "chunkCount m = length cs" "downloadedBytes m = length (concat cs)"
    by (simp_all add: holds_def)
  show ?thesis
  proof (cases "downloadedBytes m > 0")
    case True
    with Some m assms that [of cs x] show ?thesis
      by (simp add: resumption_def getMetadata_def)
  next
    case False
    with Some m assms that [of "[]" "x\<lparr>store := clear (store x) u\<rparr>"] holds_clear [of u "store x"]
    show ?thesis
      by (simp add: resumption_def getMetadata_def)
  qed
qed




lemma consume_response_ok:
  assumes h: "holds u (store x) cs" and j: "job_id (job x) = u" "\<not> isMemoryMode (job x)"
    and ci: "chunkIndex0 = length cs"
    and ni: "\<not> (startByte > 0 \<and> http_status r = 200)"
    and d: "delivers r X"
  shows "case consume_response e meta startByte chunkIndex0 r x of
           Ok x' \<Rightarrow>
             body_end r = None \<and> \<not> isMemoryMode (job x') \<and> requests x' = requests x \<and>
             (\<exists>more. holds u (store x') (cs @ more) \<and> concat more = X \<and>
                (more = [] \<longrightarrow> store x' = store x) \<and>
                (more \<noteq> [] \<longrightarrow>
                   map_option totalBytes (metadata_tbl (store x') u)
                     = Some (total_size meta startByte r)))
         | Threw err x' \<Rightarrow>
             requests x' = requests x \<and>
             (\<exists>cs'. holds u (store x') cs' \<and> prefix (concat cs') (concat cs @ X))"
proof (cases "etag_mismatch meta (resp_etag r)")
  case True
  then show ?thesis
    using j holds_clear [of u "store x"]
    by (auto simp: consume_response_def Let_def intro!: exI [of _ "[]"])
next
  case False
  from d obtain vs where vs: "body r = Some vs"
    and del: "case body_end r of None \<Rightarrow> concat vs = X | Some err \<Rightarrow> prefix (concat vs) X"
    by (auto simp: delivers_def split: option.splits)
  let ?T = "total_size meta startByte r"
  let ?x2 = "x\<lparr>job := (job x)\<lparr>progress_loaded := startByte, progress_total := ?T\<rparr>\<rparr>"
  let ?l = "\<lparr>l_store = store ?x2, l_job = job ?x2, chunkIndex = chunkIndex0,
             pendingChunks = [], pendingSize = 0\<rparr>"
  let ?c = "consume (storageFull e) ?T (resp_etag r) vs (body_end r) ?l"
  have eq: "consume_response e meta startByte chunkIndex0 r x =
              (case ?c of
                 Ok l \<Rightarrow> Ok (?x2\<lparr>store := l_store l, job := l_job l\<rparr>)
               | Threw err l \<Rightarrow> Threw err (?x2\<lparr>store := l_store l, job := l_job l\<rparr>))"
  proof -
    from ni have nig: "(startByte > 0 \<and> http_status r = 200) = False" by simp
    show ?thesis
      using False vs
      by (simp add: consume_response_def Let_def total_size_def nig split: outcome.splits)
  qed
  have ok: "loop_ok u ?l cs"
    using h j ci by (simp add: loop_ok_def)
  show ?thesis
  proof (cases ?c)
    case (Ok l')
    with consume_ok [OF ok, where full = "storageFull e" and T = ?T and tag = "resp_etag r"
                       and vs = vs and ending = "body_end r"]
    obtain more where e: "body_end r = None"
      and m: "loop_ok u l' (cs @ more)" "concat more = concat vs"
        "more = [] \<longrightarrow> l_store l' = store x"
        "more \<noteq> [] \<longrightarrow> map_option totalBytes (metadata_tbl (l_store l') u) = Some ?T"
      by auto
    from del e have "concat vs = X" by simp
    with m show ?thesis
      unfolding eq using Ok e
      by (auto simp: loop_ok_def intro!: exI [of _ more])
  next
    case (Threw err l')
    with consume_ok [OF ok, where full = "storageFull e" and T = ?T and tag = "resp_etag r"
                       and vs = vs and ending = "body_end r"]
    obtain more where m: "holds u (l_store l') (cs @ more)" "prefix (concat more) (concat vs)"
      by auto
    from del have "prefix (concat vs) X"
      by (cases "body_end r") simp_all
    with m(2) have "prefix (concat more) X"
      by (rule prefix_order.trans)
    with m(1) show ?thesis
      unfolding eq using Threw
      by (auto intro!: exI [of _ "cs @ more"])
  qed
qed

text \<open>One pass of a job against a server of \<open>B\<close>, from a store that holds a part of \<open>B\<close>.\<close>

lemma execute_pass_serves:
  assumes h: "holds u (store x) cs" and p: "prefix (concat cs) B"
    and j: "job_id (job x) = u" "\<not> isMemoryMode (job x)"
    and s: "serves B (fetch e)"
  shows "\<exists>res. execute_pass e x = Return res \<and>
           (case res of
              Ok x' \<Rightarrow> \<not> isMemoryMode (job x') \<and> (\<exists>cs'. holds u (store x') cs' \<and> concat cs' = B)
            | Threw err x' \<Rightarrow> (\<exists>cs'. holds u (store x') cs' \<and> prefix (concat cs') B))"
proof -
  from resumption_holds [OF h j(1)] obtain cs1 x1 where
    r0: "resumption x = (metadata_tbl (store x) u, length (concat cs1), length cs1, x1)"
    and h1: "holds u (store x1) cs1" and c1: "cs1 = cs \<or> cs1 = []"
    and j1: "job x1 = job x" and q1: "requests x1 = requests x"
    by blast
  from c1 p have p1: "prefix (concat cs1) B" by auto
  define sb where "sb = length (concat cs1)"
  define req where "req = \<lparr>req_url = u, range = (if sb > 0 then Some sb else None)\<rparr>"
  define x2 where "x2 = x1\<lparr>requests := requests x1 @ [req]\<rparr>"
  let ?meta = "metadata_tbl (store x) u"
  have r: "resumption x = (?meta, sb, length cs1, x1)"
    using r0 by (simp add: sb_def)
  have h2: "holds u (store x2) cs1" and j2: "job_id (job x2) = u" "\<not> isMemoryMode (job x2)"
    using h1 j j1 by (simp_all add: x2_def)
  have pass: "execute_pass e x =
     (case fetch e req of
        Inl err \<Rightarrow> Return (Threw err x2)
      | Inr r \<Rightarrow>
          if \<not> response_ok r then
            if http_status r = 416 then
              (case done_416 sb r of
                 Some serverSize \<Rightarrow>
                   Return (Ok (x2\<lparr>job := (job x2)\<lparr>progress_loaded := serverSize,
                                                   progress_total := Num (int serverSize)\<rparr>\<rparr>))
               | None \<Rightarrow> Again (x2\<lparr>store := clear (store x2) u\<rparr>))
            else Return (Threw (FetchFailed (http_status r)) x2)
          else Return (consume_response e ?meta sb (length cs1) r x2))"
  proof -
    have ju: "job_id (job x1) = u" using j j1 by simp
    show ?thesis
      unfolding execute_pass_def r prod.case Let_def req_def x2_def ju by simp
  qed
  show ?thesis
  proof (cases "fetch e req")
    case (Inl err)
    with pass have "execute_pass e x = Return (Threw err x2)" by simp
    with h2 p1 show ?thesis by auto
  next
    case (Inr resp)
    from s have "case fetch e req of
        Inl err \<Rightarrow> True
      | Inr r \<Rightarrow>
          (\<not> response_ok r \<and> http_status r \<noteq> 416) \<or>
          (case range req of
             None \<Rightarrow> http_status r = 200 \<and> delivers r B
           | Some s \<Rightarrow>
               if s < length B then http_status r = 206 \<and> delivers r (drop s B)
               else http_status r = 416 \<and>
                    resp_content_range r = Some (unsatisfied_range (length B)))"
      unfolding serves_def by (rule spec)
    with Inr have sv:
      "(\<not> response_ok resp \<and> http_status resp \<noteq> 416) \<or>
       (case range req of
          None \<Rightarrow> http_status resp = 200 \<and> delivers resp B
        | Some s \<Rightarrow>
            if s < length B then http_status resp = 206 \<and> delivers resp (drop s B)
            else http_status resp = 416 \<and>
                 resp_content_range resp = Some (unsatisfied_range (length B)))"
      by simp
    show ?thesis
    proof (cases "\<not> response_ok resp \<and> http_status resp \<noteq> 416")
      case True
      with pass Inr have "execute_pass e x = Return (Threw (FetchFailed (http_status resp)) x2)"
        by simp
      with h2 p1 show ?thesis by auto
    next
      case False
      with sv have sv': "case range req of
          None \<Rightarrow> http_status resp = 200 \<and> delivers resp B
        | Some s \<Rightarrow>
            if s < length B then http_status resp = 206 \<and> delivers resp (drop s B)
            else http_status resp = 416 \<and>
                 resp_content_range resp = Some (unsatisfied_range (length B))"
        by blast
      show ?thesis
      proof (cases "sb \<ge> length B \<and> sb > 0")
        case True
        with sv' have st: "http_status resp = 416"
          and cr: "resp_content_range resp = Some (unsatisfied_range (length B))"
          by (simp_all add: req_def)
        from True p1 have full: "concat cs1 = B"
          unfolding sb_def by (auto simp: prefix_def)
        have "execute_pass e x =
                Return (Ok (x2\<lparr>job := (job x2)\<lparr>progress_loaded := length B,
                                                 progress_total := Num (int (length B))\<rparr>\<rparr>))"
          using pass Inr st True done_416_unsatisfied [OF cr, of sb]
          by (simp add: response_ok_def)
        with h2 j2 full show ?thesis by auto
      next
        case nd: False
        let ?X = "drop sb B"
        have "response_ok resp \<and> \<not> (sb > 0 \<and> http_status resp = 200) \<and> delivers resp ?X"
        proof (cases "sb > 0")
          case True
          with nd sv' show ?thesis by (simp add: req_def response_ok_def)
        next
          case False
          with sv' show ?thesis by (simp add: req_def response_ok_def)
        qed
        then have okr: "response_ok resp" and ni: "\<not> (sb > 0 \<and> http_status resp = 200)"
          and del: "delivers resp ?X"
          by blast+
        have eq: "execute_pass e x = Return (consume_response e ?meta sb (length cs1) resp x2)"
          using pass Inr okr by simp
        from p1 have whole: "concat cs1 @ ?X = B"
          unfolding sb_def by (auto simp: prefix_def)
        show ?thesis
        proof (cases "consume_response e ?meta sb (length cs1) resp x2")
          case (Ok x')
          with consume_response_ok [OF h2 j2 refl ni del, where e = e and meta = ?meta]
          obtain more where "\<not> isMemoryMode (job x')" "holds u (store x') (cs1 @ more)"
            "concat more = ?X"
            by auto
          with whole show ?thesis
            unfolding eq using Ok by (auto intro!: exI [of _ "cs1 @ more"])
        next
          case (Threw err x')
          with consume_response_ok [OF h2 j2 refl ni del, where e = e and meta = ?meta]
          obtain cs' where "holds u (store x') cs'" "prefix (concat cs') (concat cs1 @ ?X)"
            by auto
          with whole show ?thesis
            unfolding eq using Threw by (auto intro!: exI [of _ cs'])
        qed
      qed
    qed
  qed
qed

lemma execute_returns:
  "execute_pass e x = Return res \<Longrightarrow> execute e x = Some res"
  by (subst execute.simps) simp

lemma execute_again:
  "execute_pass e x = Again x' \<Longrightarrow> execute e x = execute e x'"
  by (subst execute.simps) simp

text \<open>A new job against a server of \<open>B\<close>: it stops, it never reports a memory blob, and
  it leaves a part of \<open>B\<close> in the store, all of \<open>B\<close> when it reports completion.\<close>

lemma start_serves:
  assumes h: "holds u st cs" and p: "prefix (concat cs) B" and s: "serves B (fetch e)"
  shows "\<exists>rep x'. start e \<lparr>store = st, job = (new_DownloadJob u)\<lparr>quotaHandler := handler\<rparr>,
                            requests = []\<rparr> = Some (rep, x') \<and>
           (\<exists>cs'. holds u (store x') cs' \<and> prefix (concat cs') B \<and>
                  (rep = OnComplete None \<longrightarrow> concat cs' = B)) \<and>
           (\<forall>blob. rep \<noteq> OnComplete (Some blob))"
proof -
  let ?fresh = "\<lparr>store = st, job = (new_DownloadJob u)\<lparr>quotaHandler := handler\<rparr>, requests = []\<rparr>"
  let ?running = "?fresh\<lparr>job := (job ?fresh)\<lparr>status := Running, job_error := None\<rparr>\<rparr>"
  have pre: "holds u (store ?running) cs" "job_id (job ?running) = u" "\<not> isMemoryMode (job ?running)"
    using h by (simp_all add: new_DownloadJob_def)
  from execute_pass_serves [OF pre(1) p pre(2,3) s] obtain res where
    both: "execute_pass e ?running = Return res \<and>
           (case res of
              Ok x' \<Rightarrow> \<not> isMemoryMode (job x') \<and> (\<exists>cs'. holds u (store x') cs' \<and> concat cs' = B)
            | Threw err x' \<Rightarrow> (\<exists>cs'. holds u (store x') cs' \<and> prefix (concat cs') B))"
    ..
  from both have r: "execute_pass e ?running = Return res" ..
  from both have post: "case res of
              Ok x' \<Rightarrow> \<not> isMemoryMode (job x') \<and> (\<exists>cs'. holds u (store x') cs' \<and> concat cs' = B)
            | Threw err x' \<Rightarrow> (\<exists>cs'. holds u (store x') cs' \<and> prefix (concat cs') B)" ..
  have ex: "execute e ?running = Some res"
    by (rule execute_returns [OF r])
  have st: "status (job ?fresh) = Pending"
    by (simp add: new_DownloadJob_def)
  show ?thesis
  proof (cases res)
    case (Ok x')
    with post obtain cs' where "\<not> isMemoryMode (job x')" "holds u (store x') cs'" "concat cs' = B"
      by auto
    then show ?thesis
      using ex st Ok by (auto simp: start_def intro!: exI [of _ cs'])
  next
    case (Threw err x')
    with post obtain cs' where "holds u (store x') cs'" "prefix (concat cs') B"
      by auto
    then show ?thesis
      using ex st Threw by (auto simp: start_def intro!: exI [of _ cs'])
  qed
qed

lemma finalizeCache_stream:
  assumes "holds u (sys_store sys) cs"
  shows "case finalizeCache sys u None of
           Ok sys' \<Rightarrow>
             cs \<noteq> [] \<and>
             (\<exists>m. metadata_tbl (sys_store sys) u = Some m \<and>
                  totalBytes m = Num (int (length (concat cs))) \<and>
                  sys_cache sys' u =
                    Some \<lparr>content_length = Some (toString (totalBytes m)),
                          content_type = Some ''application/octet-stream'',
                          cached_body = concat cs\<rparr>) \<and>
             sys_store sys' = clear (sys_store sys) u
         | Threw err sys' \<Rightarrow> sys' = sys"
proof (cases "metadata_tbl (sys_store sys) u")
  case None
  then show ?thesis by (simp add: finalizeCache_def getMetadata_def)
next
  case (Some m)
  with assms have m: "cs \<noteq> []" "chunkCount m = length cs" "downloadedBytes m = length (concat cs)"
    by (simp_all add: holds_def)
  show ?thesis
  proof (cases "strict_neq (Num (int (downloadedBytes m))) (totalBytes m)")
    case True
    with Some show ?thesis by (simp add: finalizeCache_def getMetadata_def)
  next
    case False
    then have t: "totalBytes m = Num (int (length (concat cs)))"
      using m(3) by (cases "totalBytes m") simp_all
    show ?thesis
      using Some False m t holds_read_all [OF assms]
      by (simp add: finalizeCache_def getMetadata_def)
  qed
qed

lemma finalizeCache_clears:
  "finalizeCache sys u blob = Ok sys' \<Longrightarrow> sys_store sys' = clear (sys_store sys) u"
  by (auto simp: finalizeCache_def Let_def split: sum.splits)

lemma consistent_store_cong:
  "sys_cache sys' = sys_cache sys \<Longrightarrow> holds u (sys_store sys') cs \<Longrightarrow> prefix (concat cs) B \<Longrightarrow>
     consistent B u sys \<Longrightarrow> consistent B u sys'"
  by (auto simp: consistent_def)

lemma is_cached_entry: "is_cached cache u \<Longrightarrow> \<exists>r. cache u = Some r"
  by (cases "cache u") (simp_all add: is_cached_def)

text \<open>A call of \<^verbatim>\<open>downloadFile\<close> against a server of \<open>B\<close> settles or is cut off by an abort,
  it keeps the stores in agreement with \<open>B\<close>, and when it resolves the cache has \<open>B\<close>.\<close>

lemma downloadFile_serves:
  assumes c: "consistent B u sys" and s: "serves B (fetch e)"
  shows "\<exists>out sys' reqs. downloadFile e handler sys u = Some (out, sys', reqs) \<and>
           consistent B u sys' \<and>
           (out = Resolved \<longrightarrow> (\<exists>r. sys_cache sys' u = Some r \<and> cached_body r = B))"
proof (cases "is_cached (sys_cache sys) u")
  case True
  from is_cached_entry [OF True] obtain r where "sys_cache sys u = Some r" by blast
  with c have "sys_cache sys u = Some r \<and> cached_body r = B"
    by (simp add: consistent_def)
  with True c show ?thesis by (simp add: downloadFile_def)
next
  case False
  from c obtain cs where h: "holds u (sys_store sys) cs" and p: "prefix (concat cs) B"
    by (auto simp: consistent_def)
  let ?x = "\<lparr>store = sys_store sys, job = (new_DownloadJob u)\<lparr>quotaHandler := handler\<rparr>,
            requests = []\<rparr>"
  from start_serves [OF h p s, of handler] obtain rep x' cs' where
    st: "start e ?x = Some (rep, x')"
    and h': "holds u (store x') cs'" and p': "prefix (concat cs') B"
    and whole: "rep = OnComplete None \<longrightarrow> concat cs' = B"
    and nb: "\<forall>blob. rep \<noteq> OnComplete (Some blob)"
    by blast
  let ?sys1 = "sys\<lparr>sys_store := store x'\<rparr>"
  have c1: "consistent B u ?sys1"
    using consistent_store_cong [OF _ _ p' c, of ?sys1] h' by simp
  have h1: "holds u (sys_store ?sys1) cs'" using h' by simp
  show ?thesis
  proof (cases rep)
    case (OnError err)
    with st False c1 show ?thesis by (simp add: downloadFile_def)
  next
    case NoReport
    with st False c1 show ?thesis by (simp add: downloadFile_def)
  next
    case (OnComplete result)
    with nb have res: "result = None" by (cases result) auto
    with OnComplete whole have w: "concat cs' = B" by simp
    show ?thesis
    proof (cases "finalizeCache ?sys1 u None")
      case (Threw err sys2)
      with finalizeCache_stream [OF h1] have "sys2 = ?sys1" by simp
      with st False c1 OnComplete res Threw show ?thesis by (simp add: downloadFile_def)
    next
      case (Ok sys2)
      with finalizeCache_stream [OF h1] w obtain r where
        r: "sys_cache sys2 u = Some r" "cached_body r = B"
        and cl: "sys_store sys2 = clear (sys_store ?sys1) u"
        by auto
      have "holds u (sys_store sys2) []"
        unfolding cl by (rule holds_clear)
      with r have "consistent B u sys2"
        by (auto simp: consistent_def intro!: exI [of _ "[]"])
      with st False OnComplete res Ok r show ?thesis by (simp add: downloadFile_def)
    qed
  qed
qed

lemma attempts_serve:
  assumes "consistent B u sys" "list_all (\<lambda>(e, handler). serves B (fetch e)) earlier"
  shows "\<exists>sys1. attempts earlier sys u = Some sys1 \<and> consistent B u sys1"
  using assms
proof (induction earlier arbitrary: sys)
  case Nil
  then show ?case by simp
next
  case (Cons a earlier)
  obtain e handler where a: "a = (e, handler)" by (cases a)
  with Cons.prems have s: "serves B (fetch e)"
    and rest: "list_all (\<lambda>(e, handler). serves B (fetch e)) earlier"
    by simp_all
  from downloadFile_serves [OF Cons.prems(1) s, of handler] obtain out sys' reqs where
    d: "downloadFile e handler sys u = Some (out, sys', reqs)" and c': "consistent B u sys'"
    by blast
  from Cons.IH [OF c' rest] d a show ?case by simp
qed

text \<open>
  C1. Let the chunk store hold, for the URL, chunks that make up a part of \<open>B\<close> from its
  start (nothing in a clean state) and the cache no entry for it or one with the body \<open>B\<close>.
  Let every call of \<^verbatim>\<open>downloadFile\<close> in a session run against a server of \<open>B\<close> that
  honours \<^verbatim>\<open>Range\<close>, with any chunking of each body, any point at which a body is cut off,
  any transport failure, any quota behaviour and any quota handler. Then the last call of
  the session returns, and if it resolves, the cache entry of the URL has exactly the
  bytes \<open>B\<close>. Each call runs a job of its own, as the scheduler creates one per request.
\<close>

theorem download_round_trip:
  assumes "consistent B u sys"
    and "list_all (\<lambda>(e, handler). serves B (fetch e)) earlier"
    and "serves B (fetch e)"
  shows "session earlier e handler sys u \<noteq> None
         \<and> (outcome_of (session earlier e handler sys u) = Some Resolved \<longrightarrow>
              (\<exists>r. cached_after (session earlier e handler sys u) u = Some r \<and> cached_body r = B))"
proof -
  from attempts_serve [OF assms(1,2)] obtain sys1 where
    a: "attempts earlier sys u = Some sys1" and c1: "consistent B u sys1"
    by blast
  from downloadFile_serves [OF c1 assms(3), of handler] obtain out sys' reqs where
    d: "downloadFile e handler sys1 u = Some (out, sys', reqs)"
    and r: "out = Resolved \<longrightarrow> (\<exists>r. sys_cache sys' u = Some r \<and> cached_body r = B)"
    by blast
  show ?thesis
    using a d r by (simp add: session_def outcome_of_def cached_after_def)
qed

text \<open>
  C7, as the code has it. When \<^verbatim>\<open>downloadFile\<close> resolves for a URL that was not answered from
  the cache, the chunk store has no metadata for the URL afterwards, whether the job
  handed over a memory blob or not: finalization ends with \<^verbatim>\<open>store.clear(url)\<close>.
\<close>

theorem downloadFile_clears_metadata:
  assumes "\<not> is_cached (sys_cache sys) u"
    and "outcome_of (downloadFile e handler sys u) = Some Resolved"
  shows "metadata_after (downloadFile e handler sys u) u = None"
  using assms finalizeCache_clears
  by (auto simp: downloadFile_def outcome_of_def metadata_after_def getMetadata_def clear_def Let_def
           split: option.splits report.splits outcome.splits prod.splits)

lemma resumption_resume:
  assumes "getMetadata (store x) (job_id (job x)) = Some m" "0 < downloadedBytes m"
  shows "resumption x = (Some m, downloadedBytes m, chunkCount m, x)"
  using assms by (simp add: resumption_def)

lemma consume_response_never_full:
  assumes "never_full (storageFull e)" "\<not> etag_mismatch meta (resp_etag r)"
    "body r = Some vs" "body_end r = None"
  shows "\<exists>x'. consume_response e meta startByte chunkIndex0 r x = Ok x'"
proof -
  obtain l' where
    "consume (storageFull e) (total_size meta startByte r) (resp_etag r) vs None
       \<lparr>l_store = store (if startByte > 0 \<and> http_status r = 200
                          then x\<lparr>store := clear (store x) (job_id (job x))\<rparr> else x),
        l_job = (job x)\<lparr>progress_loaded := (if startByte > 0 \<and> http_status r = 200 then 0 else startByte),
                        progress_total := total_size meta startByte r\<rparr>,
        chunkIndex = (if startByte > 0 \<and> http_status r = 200 then 0 else chunkIndex0),
        pendingChunks = [], pendingSize = 0\<rparr> = Ok l'"
    using consume_never_full [OF assms(1)] by blast
  then show ?thesis
    using assms(2,3,4) by (auto simp: consume_response_def Let_def total_size_def)
qed

text \<open>
  C4, as the code has it. The store records \<open>downloadedBytes > 0\<close> and the server answers
  the ranged request with 416. When the \<^verbatim>\<open>Content-Range\<close> of the answer gives a size that
  is at most the start byte, the job takes the resource to be complete: it sends no other
  request and leaves the store as it is, and finalization runs on that store. Otherwise
  the job clears the store and sends one request without \<^verbatim>\<open>Range\<close>; when this is answered
  200 with a body that is not empty and its length as \<^verbatim>\<open>Content-Length\<close>, and the store
  accepts the writes, \<^verbatim>\<open>downloadFile\<close> resolves after exactly these two requests, the
  cache entry is the fresh body, and the store has no metadata for the URL.
\<close>

theorem range_not_satisfiable:
  assumes m: "getMetadata (sys_store sys) u = Some m" "0 < downloadedBytes m"
    and nc: "\<not> is_cached (sys_cache sys) u"
    and f1: "fetch e \<lparr>req_url = u, range = Some (downloadedBytes m)\<rparr> = Inr r1"
      "http_status r1 = 416"
  shows "(done_416 (downloadedBytes m) r1 \<noteq> None \<longrightarrow>
            downloadFile e handler sys u =
              Some (case finalizeCache sys u None of
                      Ok sys' \<Rightarrow> (Resolved, sys', [\<lparr>req_url = u, range = Some (downloadedBytes m)\<rparr>])
                    | Threw err sys' \<Rightarrow>
                        (Rejected err, sys', [\<lparr>req_url = u, range = Some (downloadedBytes m)\<rparr>])))
       \<and> (done_416 (downloadedBytes m) r1 = None
            \<and> fetch e \<lparr>req_url = u, range = None\<rparr> = Inr r2 \<and> http_status r2 = 200
            \<and> body r2 = Some vs \<and> body_end r2 = None \<and> concat vs \<noteq> []
            \<and> resp_content_length r2 = Some cl \<and> parseInt cl = Num (int (length (concat vs)))
            \<and> never_full (storageFull e) \<longrightarrow>
            outcome_of (downloadFile e handler sys u) = Some Resolved
            \<and> requests_sent (downloadFile e handler sys u) =
                 [\<lparr>req_url = u, range = Some (downloadedBytes m)\<rparr>, \<lparr>req_url = u, range = None\<rparr>]
            \<and> cached_after (downloadFile e handler sys u) u =
                 Some \<lparr>content_length = Some (toString (Num (int (length (concat vs))))),
                       content_type = Some ''application/octet-stream'',
                       cached_body = concat vs\<rparr>
            \<and> metadata_after (downloadFile e handler sys u) u = None)"
proof (intro conjI impI)
  let ?d = "downloadedBytes m"
  let ?req1 = "\<lparr>req_url = u, range = Some ?d\<rparr>"
  let ?fresh = "\<lparr>store = sys_store sys, job = (new_DownloadJob u)\<lparr>quotaHandler := handler\<rparr>,
                requests = []\<rparr>"
  let ?running = "?fresh\<lparr>job := (job ?fresh)\<lparr>status := Running, job_error := None\<rparr>\<rparr>"
  let ?sent1 = "?running\<lparr>requests := [?req1]\<rparr>"
  have res: "resumption ?running = (Some m, ?d, chunkCount m, ?running)"
    using m by (intro resumption_resume) (simp_all add: new_DownloadJob_def)
  have nok: "\<not> response_ok r1"
    using f1(2) by (simp add: response_ok_def)
  have pass1: "execute_pass e ?running =
      (case done_416 ?d r1 of
         Some serverSize \<Rightarrow>
           Return (Ok (?sent1\<lparr>job := (job ?sent1)\<lparr>progress_loaded := serverSize,
                                                   progress_total := Num (int serverSize)\<rparr>\<rparr>))
       | None \<Rightarrow> Again (?sent1\<lparr>store := clear (store ?sent1) u\<rparr>))"
    unfolding execute_pass_def res prod.case Let_def
    using m(2) f1 nok by (simp add: new_DownloadJob_def split: option.splits)
  {
    assume "done_416 ?d r1 \<noteq> None"
    then obtain n where n: "done_416 ?d r1 = Some n" by blast
    let ?done = "?sent1\<lparr>job := (job ?sent1)\<lparr>progress_loaded := n, progress_total := Num (int n)\<rparr>\<rparr>"
    have "execute e ?running = Some (Ok ?done)"
      using pass1 n by (intro execute_returns) simp
    then have "start e ?fresh =
        Some (OnComplete None, ?done\<lparr>job := (job ?done)\<lparr>status := Completed\<rparr>\<rparr>)"
      by (simp add: start_def new_DownloadJob_def)
    then show "downloadFile e handler sys u =
              Some (case finalizeCache sys u None of
                      Ok sys' \<Rightarrow> (Resolved, sys', [?req1])
                    | Threw err sys' \<Rightarrow> (Rejected err, sys', [?req1]))"
      using nc by (simp add: downloadFile_def split: outcome.splits)
  }
  assume b: "done_416 ?d r1 = None
            \<and> fetch e \<lparr>req_url = u, range = None\<rparr> = Inr r2 \<and> http_status r2 = 200
            \<and> body r2 = Some vs \<and> body_end r2 = None \<and> concat vs \<noteq> []
            \<and> resp_content_length r2 = Some cl \<and> parseInt cl = Num (int (length (concat vs)))
            \<and> never_full (storageFull e)"
  from b have f2: "fetch e \<lparr>req_url = u, range = None\<rparr> = Inr r2"
    and bd: "body r2 = Some vs" and be: "body_end r2 = None"
    and nf: "never_full (storageFull e)"
    by simp_all
  let ?B = "concat vs"
  let ?req2 = "\<lparr>req_url = u, range = None\<rparr>"
  let ?again = "?sent1\<lparr>store := clear (store ?sent1) u\<rparr>"
  let ?sent2 = "?again\<lparr>requests := [?req1, ?req2]\<rparr>"
  have ex1: "execute e ?running = execute e ?again"
    using pass1 b by (intro execute_again) simp
  have none: "getMetadata (store ?again) u = None"
    by (simp add: getMetadata_def clear_def)
  have res2: "resumption ?again = (None, 0, 0, ?again)"
    using none by (simp add: resumption_def new_DownloadJob_def)
  have ok2: "response_ok r2"
    using b by (simp add: response_ok_def)
  have pass2: "execute_pass e ?again = Return (consume_response e None 0 0 r2 ?sent2)"
    unfolding execute_pass_def res2 prod.case Let_def
    using b ok2 by (simp add: new_DownloadJob_def)
  have h2: "holds u (store ?sent2) []"
    using holds_clear [of u "sys_store sys"] by simp
  have j2: "job_id (job ?sent2) = u" "\<not> isMemoryMode (job ?sent2)"
    by (simp_all add: new_DownloadJob_def)
  have del: "delivers r2 ?B"
    using b by (simp add: delivers_def)
  have nm: "\<not> etag_mismatch None (resp_etag r2)"
    by (simp add: etag_mismatch_def)
  from consume_response_never_full [OF nf nm bd be, of 0 0 ?sent2]
  obtain x' where ok: "consume_response e None 0 0 r2 ?sent2 = Ok x'"
    ..
  have z: "(0::nat) = length ([]::bytes list)" by simp
  have ni: "\<not> ((0::nat) > 0 \<and> http_status r2 = 200)" by simp
  from consume_response_ok [OF h2 j2 z ni del, where e = e and meta = None] ok
  obtain more where mem: "\<not> isMemoryMode (job x')" and rq: "requests x' = [?req1, ?req2]"
    and hm: "holds u (store x') more" and cm: "concat more = ?B"
    and tm: "more \<noteq> [] \<longrightarrow>
               map_option totalBytes (metadata_tbl (store x') u) = Some (total_size None 0 r2)"
    by auto
  from cm b have ne: "more \<noteq> []" by auto
  have cl: "cl \<noteq> []"
    using b by (auto simp: parseInt_def)
  have ts: "total_size None 0 r2 = Num (int (length ?B))"
    using b cl by (simp add: total_size_def)
  have ex: "execute e ?running = Some (Ok x')"
    unfolding ex1 using pass2 ok by (intro execute_returns) simp
  then have st: "start e ?fresh = Some (OnComplete None, x'\<lparr>job := (job x')\<lparr>status := Completed\<rparr>\<rparr>)"
    using mem by (simp add: start_def new_DownloadJob_def)
  let ?sys1 = "sys\<lparr>sys_store := store x'\<rparr>"
  have h1: "holds u (sys_store ?sys1) more" using hm by simp
  from tm ne ts obtain m' where m': "metadata_tbl (store x') u = Some m'"
    "totalBytes m' = Num (int (length ?B))"
    by auto
  from hm m' ne have dm: "downloadedBytes m' = length ?B" "chunkCount m' = length more"
    using cm by (simp_all add: holds_def)
  have fin: "finalizeCache ?sys1 u None =
      Ok \<lparr>sys_store = clear (store x') u,
          sys_cache = (sys_cache sys)(u \<mapsto>
             \<lparr>content_length = Some (toString (Num (int (length ?B)))),
              content_type = Some ''application/octet-stream'',
              cached_body = ?B\<rparr>)\<rparr>"
    using m' dm holds_read_all [OF hm] cm
    by (simp add: finalizeCache_def getMetadata_def)
  have d: "downloadFile e handler sys u =
      Some (Resolved,
            \<lparr>sys_store = clear (store x') u,
             sys_cache = (sys_cache sys)(u \<mapsto>
               \<lparr>content_length = Some (toString (Num (int (length ?B)))),
                content_type = Some ''application/octet-stream'',
                cached_body = ?B\<rparr>)\<rparr>,
            [?req1, ?req2])"
    using nc st fin rq by (simp add: downloadFile_def)
  show "outcome_of (downloadFile e handler sys u) = Some Resolved"
    unfolding d by (simp add: outcome_of_def)
  show "requests_sent (downloadFile e handler sys u) = [?req1, ?req2]"
    unfolding d by (simp add: requests_sent_def)
  show "cached_after (downloadFile e handler sys u) u =
                 Some \<lparr>content_length = Some (toString (Num (int (length ?B)))),
                       content_type = Some ''application/octet-stream'',
                       cached_body = ?B\<rparr>"
    unfolding d by (simp add: cached_after_def)
  show "metadata_after (downloadFile e handler sys u) u = None"
    unfolding d by (simp add: metadata_after_def getMetadata_def clear_def)
qed

section \<open>The properties at concrete states\<close>

lemmas job_eval =
  downloadFile_def is_cached_def start_def execute.simps execute_pass_def resumption_def
  consume_response_def flush_def appendChunk_def finalizeCache_def getMetadata_def clear_def
  new_DownloadJob_def response_ok_def etag_mismatch_def done_416_def parseInt_def is_space_def
  is_digit_def digits_value_def digit_value_def getStream_def pull_def read_all.simps
  nat_digits.simps unlimited_def exhausted_def url_a_def Let_def
  outcome_of_def cached_after_def metadata_after_def requests_sent_def session_def

lemma honest_server_serves: "serves B (fetch (honest_server B))"
  by (auto simp: serves_def honest_server_def delivers_def split: option.splits)

lemma flaky_server_serves: "serves B (fetch (flaky_server B))"
  by (auto simp: serves_def flaky_server_def honest_server_def delivers_def take_is_prefix
           split: option.splits)

lemma store_start_consistent:
  "consistent resource_ten url_a \<lparr>sys_store = store_start, sys_cache = Map.empty\<rparr>"
proof -
  have "holds url_a store_start [[115, 116, 97, 114, 116]]"
    by (auto simp: holds_def store_start_def)
  moreover have "prefix (concat [[115, 116, 97, 114, 116]]) resource_ten"
    by (simp add: resource_ten_def)
  ultimately show ?thesis
    unfolding consistent_def by (intro conjI exI [of _ "[[115, 116, 97, 114, 116]]"]) simp_all
qed

text \<open>
  C3 fails on the code. The store holds five bytes of the resource of ten bytes and the
  server answers the ranged request 200 with all ten bytes and \<^verbatim>\<open>Content-Length: 10\<close>. The job
  clears the store and consumes the body from offset 0, but the total it records was
  computed before the reset as \<^verbatim>\<open>Content-Length + startByte\<close>: the metadata says ten
  downloaded bytes of a total of fifteen, finalization fails its integrity check, and the
  cache gets no entry.
\<close>

theorem ignored_range_fails_integrity_check:
  "outcome_of (downloadFile ignores_range None \<lparr>sys_store = store_start, sys_cache = Map.empty\<rparr> url_a)
     = Some (Rejected (IntegrityCheckFailed 10 (Num 15)))
   \<and> cached_after (downloadFile ignores_range None \<lparr>sys_store = store_start, sys_cache = Map.empty\<rparr> url_a) url_a
     = None
   \<and> metadata_after (downloadFile ignores_range None \<lparr>sys_store = store_start, sys_cache = Map.empty\<rparr> url_a) url_a
     = Some \<lparr>totalBytes = Num 15, downloadedBytes = 10, chunkCount = 1, etag = None\<rparr>
   \<and> requests_sent (downloadFile ignores_range None \<lparr>sys_store = store_start, sys_cache = Map.empty\<rparr> url_a)
     = [\<lparr>req_url = url_a, range = Some 5\<rparr>]"
  by (simp add: job_eval ignores_range_def store_start_def resource_ten_def)

text \<open>
  C2 fails on the code. Chunk 0 of three bytes is stored, the append of chunk 1 is rejected
  for quota, and the handler permits the fallback. The index was already incremented when
  the append was called, so the recovery asks the stream for chunks 0 and 1; chunk 1 is
  not in the store, the stream fails after chunk 0, and the job rethrows the quota error:
  \<^verbatim>\<open>downloadFile\<close> rejects, the cache gets no entry, and the store is not cleared.
\<close>

theorem quota_fallback_recovery_fails:
  "outcome_of (downloadFile quota_hit (Some True) \<lparr>sys_store = store_three, sys_cache = Map.empty\<rparr> url_a)
     = Some (Rejected QuotaExceededError)
   \<and> cached_after (downloadFile quota_hit (Some True) \<lparr>sys_store = store_three, sys_cache = Map.empty\<rparr> url_a) url_a
     = None
   \<and> metadata_after (downloadFile quota_hit (Some True) \<lparr>sys_store = store_three, sys_cache = Map.empty\<rparr> url_a) url_a
     = Some \<lparr>totalBytes = Num 6, downloadedBytes = 3, chunkCount = 1, etag = None\<rparr>
   \<and> read_all store_three (getStream url_a 2) = ([[1, 2, 3]], Some (MissingChunk 1 url_a))"
  by (simp add: job_eval quota_hit_def store_three_def)

text \<open>
  C7, as the specification states it, fails on the code: \<^verbatim>\<open>downloadFile\<close> resolves at once
  for a URL whose cache entry has a positive \<^verbatim>\<open>Content-Length\<close>, without a request and
  without touching the chunk store, whose metadata for the URL stays.
\<close>

theorem cached_short_circuit_counterexample:
  "outcome_of (downloadFile (honest_server resource_ten) None cached_seven url_a) = Some Resolved
   \<and> requests_sent (downloadFile (honest_server resource_ten) None cached_seven url_a) = []
   \<and> metadata_after (downloadFile (honest_server resource_ten) None cached_seven url_a) url_a
       = Some \<lparr>totalBytes = Num 10, downloadedBytes = 5, chunkCount = 1, etag = None\<rparr>"
  by (simp add: job_eval cached_seven_def store_start_def)

text \<open>
  C4, as the specification states it, fails on the code: with a hundred downloaded bytes
  recorded and the answer 416 with \<^verbatim>\<open>Content-Range: */50\<close>, the job finds
  \<^verbatim>\<open>startByte >= serverSize\<close> and returns as complete. One request is sent, the ranged
  one; the store is not cleared before finalization, and what is cached is the hundred
  stored bytes, not the fresh body.
\<close>

theorem range_not_satisfiable_counterexample:
  "requests_sent (downloadFile (unsatisfiable ''*/50'') None
                    \<lparr>sys_store = store_hundred, sys_cache = Map.empty\<rparr> url_a)
     = [\<lparr>req_url = url_a, range = Some 100\<rparr>]
   \<and> outcome_of (downloadFile (unsatisfiable ''*/50'') None
                    \<lparr>sys_store = store_hundred, sys_cache = Map.empty\<rparr> url_a) = Some Resolved
   \<and> map_option cached_body
        (cached_after (downloadFile (unsatisfiable ''*/50'') None
                         \<lparr>sys_store = store_hundred, sys_cache = Map.empty\<rparr> url_a) url_a)
       = Some (replicate 100 0)"
  by (simp add: job_eval unsatisfiable_def store_hundred_def)

text \<open>The recovery into memory fails for every store that holds what the job appended:
  a rejected append with a consenting handler ends the flush with the quota error.\<close>

lemma flush_recovery_fails:
  assumes "loop_ok u l cs" "pendingChunks l \<noteq> []"
    and "full (l_store l) u (length cs) (concat (pendingChunks l))"
  shows "\<exists>l'. flush full T tag l = Threw QuotaExceededError l' \<and> l_store l' = l_store l"
proof -
  from assms(1) have h: "holds u (l_store l) cs" and i: "chunkIndex l = length cs"
    and m: "\<not> isMemoryMode (l_job l)" and j: "job_id (l_job l) = u"
    by (simp_all add: loop_ok_def)
  have "appendChunk full (l_store l) u (concat (pendingChunks l)) (length cs) T tag
          = Inl QuotaExceededError"
    using assms(3) by (simp add: appendChunk_def)
  then show ?thesis
    using assms(2) m i j holds_read_all_beyond [OF h]
    by (simp add: flush_def Let_def split: option.splits)
qed

theorem download_round_trip_witness:
  "outcome_of (session [(flaky_server resource_ten, None)] (honest_server resource_ten) None
                 \<lparr>sys_store = store_start, sys_cache = Map.empty\<rparr> url_a) = Some Resolved
   \<and> (\<exists>r. cached_after (session [(flaky_server resource_ten, None)] (honest_server resource_ten) None
                 \<lparr>sys_store = store_start, sys_cache = Map.empty\<rparr> url_a) url_a = Some r
          \<and> cached_body r = resource_ten)
   \<and> outcome_of (downloadFile (flaky_server resource_ten) None
                 \<lparr>sys_store = store_start, sys_cache = Map.empty\<rparr> url_a)
       = Some (Rejected NetworkError)"
proof -
  have earlier: "list_all (\<lambda>(e, handler). serves resource_ten (fetch e))
                   [(flaky_server resource_ten, None)]"
    by (simp add: flaky_server_serves)
  have resolved: "outcome_of (session [(flaky_server resource_ten, None)] (honest_server resource_ten)
                    None \<lparr>sys_store = store_start, sys_cache = Map.empty\<rparr> url_a) = Some Resolved"
    by (simp add: job_eval flaky_server_def honest_server_def store_start_def resource_ten_def)
  have cut: "outcome_of (downloadFile (flaky_server resource_ten) None
                 \<lparr>sys_store = store_start, sys_cache = Map.empty\<rparr> url_a)
       = Some (Rejected NetworkError)"
    by (simp add: job_eval flaky_server_def honest_server_def store_start_def resource_ten_def)
  show ?thesis
    using download_round_trip [OF store_start_consistent earlier honest_server_serves, of None]
          resolved cut
    by blast
qed

theorem downloadFile_clears_metadata_witness:
  "\<not> is_cached Map.empty url_a
   \<and> outcome_of (downloadFile (honest_server resource_ten) None
                   \<lparr>sys_store = store_start, sys_cache = Map.empty\<rparr> url_a) = Some Resolved
   \<and> metadata_after (downloadFile (honest_server resource_ten) None
                   \<lparr>sys_store = store_start, sys_cache = Map.empty\<rparr> url_a) url_a = None
   \<and> map_option cached_body
        (cached_after (downloadFile (honest_server resource_ten) None
                   \<lparr>sys_store = store_start, sys_cache = Map.empty\<rparr> url_a) url_a)
       = Some resource_ten"
proof -
  have nc: "\<not> is_cached (sys_cache \<lparr>sys_store = store_start, sys_cache = Map.empty\<rparr>) url_a"
    by (simp add: is_cached_def)
  have resolved: "outcome_of (downloadFile (honest_server resource_ten) None
                   \<lparr>sys_store = store_start, sys_cache = Map.empty\<rparr> url_a) = Some Resolved"
    by (simp add: job_eval honest_server_def store_start_def resource_ten_def)
  have cached: "map_option cached_body
        (cached_after (downloadFile (honest_server resource_ten) None
                   \<lparr>sys_store = store_start, sys_cache = Map.empty\<rparr> url_a) url_a)
       = Some resource_ten"
    by (simp add: job_eval honest_server_def store_start_def resource_ten_def)
  show ?thesis
    using downloadFile_clears_metadata [OF nc resolved] nc resolved cached
    by simp
qed

theorem range_not_satisfiable_witness:
  "done_416 100 \<lparr>http_status = 416, resp_content_length = None,
                 resp_content_range = Some ''bytes */200'', resp_etag = None,
                 body = Some [], body_end = None\<rparr> = None
   \<and> outcome_of (downloadFile (unsatisfiable ''bytes */200'') None
                   \<lparr>sys_store = store_hundred, sys_cache = Map.empty\<rparr> url_a) = Some Resolved
   \<and> requests_sent (downloadFile (unsatisfiable ''bytes */200'') None
                   \<lparr>sys_store = store_hundred, sys_cache = Map.empty\<rparr> url_a)
       = [\<lparr>req_url = url_a, range = Some 100\<rparr>, \<lparr>req_url = url_a, range = None\<rparr>]
   \<and> cached_after (downloadFile (unsatisfiable ''bytes */200'') None
                   \<lparr>sys_store = store_hundred, sys_cache = Map.empty\<rparr> url_a) url_a
       = Some \<lparr>content_length = Some ''5'', content_type = Some ''application/octet-stream'',
               cached_body = [102, 114, 101, 115, 104]\<rparr>
   \<and> metadata_after (downloadFile (unsatisfiable ''bytes */200'') None
                   \<lparr>sys_store = store_hundred, sys_cache = Map.empty\<rparr> url_a) url_a = None
   \<and> done_416 100 \<lparr>http_status = 416, resp_content_length = None,
                 resp_content_range = Some ''*/50'', resp_etag = None,
                 body = Some [], body_end = None\<rparr> = Some 50
   \<and> requests_sent (downloadFile (unsatisfiable ''*/50'') None
                   \<lparr>sys_store = store_hundred, sys_cache = Map.empty\<rparr> url_a)
       = [\<lparr>req_url = url_a, range = Some 100\<rparr>]"
proof -
  let ?sys = "\<lparr>sys_store = store_hundred, sys_cache = Map.empty\<rparr>"
  let ?m = "\<lparr>totalBytes = Num 100, downloadedBytes = 100, chunkCount = 1, etag = None\<rparr>"
  let ?r200 = "\<lparr>http_status = 416, resp_content_length = None,
                 resp_content_range = Some ''bytes */200'', resp_etag = None,
                 body = Some [], body_end = None\<rparr>"
  let ?r50 = "\<lparr>http_status = 416, resp_content_length = None,
                 resp_content_range = Some ''*/50'', resp_etag = None,
                 body = Some [], body_end = None\<rparr>"
  let ?r2 = "\<lparr>http_status = 200, resp_content_length = Some ''5'',
                        resp_content_range = None, resp_etag = None,
                        body = Some [[102, 114, 101, 115, 104]], body_end = None\<rparr>"
  have m: "getMetadata (sys_store ?sys) url_a = Some ?m" "0 < downloadedBytes ?m"
    by (simp_all add: getMetadata_def store_hundred_def)
  have nc: "\<not> is_cached (sys_cache ?sys) url_a"
    by (simp add: is_cached_def)
  have f200: "fetch (unsatisfiable ''bytes */200'') \<lparr>req_url = url_a, range = Some (downloadedBytes ?m)\<rparr>
                = Inr ?r200" "http_status ?r200 = 416"
    by (simp_all add: unsatisfiable_def)
  have f50: "fetch (unsatisfiable ''*/50'') \<lparr>req_url = url_a, range = Some (downloadedBytes ?m)\<rparr>
                = Inr ?r50" "http_status ?r50 = 416"
    by (simp_all add: unsatisfiable_def)
  have d200: "done_416 100 ?r200 = None"
    by (simp add: done_416_def is_digit_def digits_value_def digit_value_def)
  have d50: "done_416 100 ?r50 = Some 50"
    by (simp add: done_416_def is_digit_def digits_value_def digit_value_def)
  have second: "fetch (unsatisfiable ''bytes */200'') \<lparr>req_url = url_a, range = None\<rparr> = Inr ?r2
      \<and> http_status ?r2 = 200 \<and> body ?r2 = Some [[102, 114, 101, 115, 104]] \<and> body_end ?r2 = None
      \<and> concat [[102, 114, 101, 115, 104 :: byte]] \<noteq> []
      \<and> resp_content_length ?r2 = Some ''5''
      \<and> parseInt ''5'' = Num (int (length (concat [[102, 114, 101, 115, 104 :: byte]])))
      \<and> never_full (storageFull (unsatisfiable ''bytes */200''))"
    by (simp add: unsatisfiable_def parseInt_def is_space_def is_digit_def digits_value_def
          digit_value_def never_full_def unlimited_def)
  have fin: "finalizeCache ?sys url_a None =
      Ok \<lparr>sys_store = clear store_hundred url_a,
          sys_cache = [url_a \<mapsto> \<lparr>content_length = Some ''100'',
                                   content_type = Some ''application/octet-stream'',
                                   cached_body = replicate 100 0\<rparr>]\<rparr>"
    by (simp add: finalizeCache_def getMetadata_def store_hundred_def getStream_def pull_def
          read_all.simps nat_digits.simps url_a_def)
  note a = range_not_satisfiable [OF m nc f50, where handler = None, THEN conjunct1]
  note b = range_not_satisfiable [OF m nc f200, where handler = None and ?r2.0 = ?r2
             and vs = "[[102, 114, 101, 115, 104]]" and cl = "''5''", THEN conjunct2]
  have one: "requests_sent (downloadFile (unsatisfiable ''*/50'') None ?sys url_a)
       = [\<lparr>req_url = url_a, range = Some 100\<rparr>]"
    using a d50 fin by (simp add: requests_sent_def)
  have two: "outcome_of (downloadFile (unsatisfiable ''bytes */200'') None ?sys url_a) = Some Resolved
            \<and> requests_sent (downloadFile (unsatisfiable ''bytes */200'') None ?sys url_a) =
                 [\<lparr>req_url = url_a, range = Some 100\<rparr>, \<lparr>req_url = url_a, range = None\<rparr>]
            \<and> cached_after (downloadFile (unsatisfiable ''bytes */200'') None ?sys url_a) url_a =
                 Some \<lparr>content_length = Some ''5'',
                       content_type = Some ''application/octet-stream'',
                       cached_body = [102, 114, 101, 115, 104]\<rparr>
            \<and> metadata_after (downloadFile (unsatisfiable ''bytes */200'') None ?sys url_a) url_a = None"
    using b d200 second by (simp add: nat_digits.simps)
  from d200 two d50 one show ?thesis by simp
qed

end
